theory Spec2Isabelle
  imports Main "HOL-Library.AList" "HOL-Library.Sublist"
begin

section \<open>Data model of src/server.ts\<close>

text \<open>
  The two interfaces \<^verbatim>\<open>Robot\<close> and \<^verbatim>\<open>Mission\<close> become records, their string-literal
  union types become datatypes. Both unions have a member \<^verbatim>\<open>'completed'\<close>, so the
  constructors carry a prefix: \<open>R_\<close> for a robot status, \<open>S_\<close> for a mission stage.
  A \<^verbatim>\<open>Date\<close> is its millisecond timestamp (\<^verbatim>\<open>getTime()\<close>), an \<open>int\<close>.
  \<^verbatim>\<open>string | null\<close> is \<open>string option\<close>.
\<close>

datatype RobotStatus = R_idle | R_assigned | R_en_route | R_delivering | R_completed

datatype Stage = S_preparation | S_travel | S_delivery | S_completed | S_cancelled

record Robot =
  robot_id :: string
  status :: RobotStatus
  currentMissionId :: "string option"
  lastUpdated :: int

record Mission =
  mission_id :: string
  assignedRobotId :: "string option"
  createdAt :: int
  currentStage :: Stage
  stageStartTime :: int

text \<open>
  The module-level variables \<^verbatim>\<open>robots\<close> and \<^verbatim>\<open>missions\<close> are plain JavaScript objects
  used as dictionaries. Iteration (\<^verbatim>\<open>Object.values\<close>, \<^verbatim>\<open>Object.keys\<close>) follows insertion
  order for the keys this program generates (\<^verbatim>\<open>robot-N\<close>, \<^verbatim>\<open>mission-T-I\<close>: none is an array
  index), and assigning to a key that is present keeps its position. That is an
  association list of the own properties, written with \<open>AList.update\<close>.
  All mutable state of the module is the record \<open>sim\<close>, passed through every operation:
  \<open>robots s\<close> lists the Robot records of the registry, \<open>missions s\<close> the Mission records of
  the mission store.

  Reading \<^verbatim>\<open>obj[key]\<close> on a plain object finds an own property, or else a property inherited
  from \<^verbatim>\<open>Object.prototype\<close>, or else \<^verbatim>\<open>undefined\<close>; \<open>obj_get\<close> below tells the three apart.
  Where the code goes the same way for an inherited property and for \<^verbatim>\<open>undefined\<close>, or where
  a key is known to be an own key, the read is written \<open>map_of\<close>; each such place says so.
\<close>

record sim =
  robots :: "(string \<times> Robot) list"
  missions :: "(string \<times> Mission) list"

text \<open>The table \<^verbatim>\<open>missionStages\<close>: it has no entry for \<^verbatim>\<open>cancelled\<close>.\<close>

record StageInfo =
  duration :: int
  robotStatus :: RobotStatus

fun missionStages :: "Stage \<Rightarrow> StageInfo option" where
  "missionStages S_preparation = Some \<lparr>duration = 30, robotStatus = R_assigned\<rparr>"
| "missionStages S_travel = Some \<lparr>duration = 150, robotStatus = R_en_route\<rparr>"
| "missionStages S_delivery = Some \<lparr>duration = 60, robotStatus = R_delivering\<rparr>"
| "missionStages S_completed = Some \<lparr>duration = 5, robotStatus = R_completed\<rparr>"
| "missionStages S_cancelled = None"

section \<open>JavaScript primitives the code relies on\<close>

text \<open>
  Template-literal rendering of an integer: decimal digits, a minus sign when negative
  (JavaScript prints integers of magnitude below \<open>10^21\<close> this way; clock readings are far
  below).
\<close>

fun string_of_nat :: "nat \<Rightarrow> string" where
  "string_of_nat n =
     (if n < 10 then [''0123456789'' ! n]
      else string_of_nat (n div 10) @ [''0123456789'' ! (n mod 10)])"

declare string_of_nat.simps [simp del]

definition string_of_int :: "int \<Rightarrow> string" where
  "string_of_int i = (if i < 0 then CHR ''-'' # string_of_nat (nat (- i)) else string_of_nat (nat i))"

text \<open>\<^verbatim>\<open>Array.prototype.indexOf\<close>: the first index of the element, or -1.\<close>

fun indexOf :: "'a list \<Rightarrow> 'a \<Rightarrow> int" where
  "indexOf [] x = - 1"
| "indexOf (y # ys) x =
     (if y = x then 0 else (let i = indexOf ys x in if i < 0 then - 1 else i + 1))"

text \<open>Array indexing \<^verbatim>\<open>xs[i]\<close>: \<^verbatim>\<open>undefined\<close> (here \<open>None\<close>) out of range.\<close>

definition array_get :: "'a list \<Rightarrow> int \<Rightarrow> 'a option" where
  "array_get xs i = (if 0 \<le> i \<and> i < int (length xs) then Some (xs ! nat i) else None)"

text \<open>
  Truthiness of a \<^verbatim>\<open>string | null\<close>: \<^verbatim>\<open>null\<close> and the empty string are falsy.
\<close>

fun truthy :: "string option \<Rightarrow> bool" where
  "truthy None = False"
| "truthy (Some s) = (s \<noteq> [])"

text \<open>
  The names every plain object inherits from \<^verbatim>\<open>Object.prototype\<close>
  (\<^verbatim>\<open>Object.getOwnPropertyNames(Object.prototype)\<close>). The inherited values are functions, and
  for \<^verbatim>\<open>__proto__\<close> the prototype object itself: all truthy, none with an enumerable own
  property, none with a property named like a field of the program's records.
\<close>

definition object_prototype_keys :: "string list" where
  "object_prototype_keys =
     [''constructor'', ''__defineGetter__'', ''__defineSetter__'', ''hasOwnProperty'',
      ''__lookupGetter__'', ''__lookupSetter__'', ''isPrototypeOf'', ''propertyIsEnumerable'',
      ''toString'', ''valueOf'', ''__proto__'', ''toLocaleString'']"

datatype 'a property = Own 'a | Inherited | Missing

definition obj_get :: "(string \<times> 'a) list \<Rightarrow> string \<Rightarrow> 'a property" where
  "obj_get obj key =
     (case map_of obj key of
        Some v \<Rightarrow> Own v
      | None \<Rightarrow> if key \<in> set object_prototype_keys then Inherited else Missing)"

section \<open>Fleet registry\<close>

text \<open>
  Every operation below takes the clock reading \<open>now\<close> (milliseconds) as a parameter: it
  stands for \<^verbatim>\<open>Date.now()\<close> and \<^verbatim>\<open>new Date()\<close>, which one synchronous invocation reads
  within the same instant.
\<close>

definition robotName :: "nat \<Rightarrow> string" where
  "robotName i = ''robot-'' @ string_of_nat i"

definition initializeRobots :: "int \<Rightarrow> sim \<Rightarrow> sim" where
  "initializeRobots now s =
     s\<lparr>robots :=
         fold (\<lambda>i rs. AList.update (robotName i)
                 \<lparr>robot_id = robotName i, status = R_idle, currentMissionId = None,
                  lastUpdated = now\<rparr> rs)
              [1..<101] []\<rparr>"

text \<open>The state of the module once it is loaded and \<^verbatim>\<open>initializeRobots\<close> has run.\<close>

definition initial :: "int \<Rightarrow> sim" where
  "initial now = initializeRobots now \<lparr>robots = [], missions = []\<rparr>"

definition getAllRobots :: "sim \<Rightarrow> Robot list" where
  "getAllRobots s = map snd (robots s)"

definition getIdleRobots :: "sim \<Rightarrow> Robot list" where
  "getIdleRobots s = filter (\<lambda>robot. status robot = R_idle) (getAllRobots s)"

text \<open>
  \<^verbatim>\<open>Partial<Robot>\<close>: each field is given (\<open>Some\<close>) or absent (\<open>None\<close>); a given
  \<^verbatim>\<open>currentMissionId\<close> may itself be \<^verbatim>\<open>null\<close>.
\<close>

record RobotUpdates =
  u_id :: "string option"
  u_status :: "RobotStatus option"
  u_currentMissionId :: "string option option"
  u_lastUpdated :: "int option"

definition no_updates :: RobotUpdates where
  "no_updates = \<lparr>u_id = None, u_status = None, u_currentMissionId = None, u_lastUpdated = None\<rparr>"

text \<open>The object spread \<^verbatim>\<open>{ ...robot, ...updates, lastUpdated: new Date() }\<close>.\<close>

definition spread :: "Robot \<Rightarrow> RobotUpdates \<Rightarrow> int \<Rightarrow> Robot" where
  "spread robot updates now =
     \<lparr>robot_id = (case u_id updates of None \<Rightarrow> robot_id robot | Some v \<Rightarrow> v),
      status = (case u_status updates of None \<Rightarrow> status robot | Some v \<Rightarrow> v),
      currentMissionId =
        (case u_currentMissionId updates of None \<Rightarrow> currentMissionId robot | Some v \<Rightarrow> v),
      lastUpdated = now\<rparr>"

text \<open>
  What \<^verbatim>\<open>updateRobot\<close> returns: \<^verbatim>\<open>null\<close>, the updated Robot, or, when the id names an
  inherited property, an object that is no Robot. In that last case \<^verbatim>\<open>robot\<close> is the inherited
  value, the guard \<^verbatim>\<open>if (!robot)\<close> does not fire, the spread yields just the given fields with
  \<^verbatim>\<open>lastUpdated\<close> (here: the updates with \<open>u_lastUpdated\<close> set), and
  \<^verbatim>\<open>robots[id] = updatedRobot\<close> puts that object on \<^verbatim>\<open>robots\<close> under the id (for \<^verbatim>\<open>__proto__\<close>: as
  its prototype). It is not a Robot record, so the list of the registry's Robot records,
  which is what the second component gives, has the same entries as before; the result
  \<open>Stray\<close> stands for the object returned and put on \<^verbatim>\<open>robots\<close>.
\<close>

datatype update_result = NotFound | Updated Robot | Stray RobotUpdates

definition updateRobot :: "int \<Rightarrow> string \<Rightarrow> RobotUpdates \<Rightarrow> sim \<Rightarrow> update_result \<times> sim" where
  "updateRobot now ident updates s =
     (case obj_get (robots s) ident of
        Missing \<Rightarrow> (NotFound, s)
      | Own robot \<Rightarrow>
          (let updatedRobot = spread robot updates now
           in (Updated updatedRobot, s\<lparr>robots := AList.update ident updatedRobot (robots s)\<rparr>))
      | Inherited \<Rightarrow> (Stray (updates\<lparr>u_lastUpdated := Some now\<rparr>), s))"

section \<open>Assignment scheduler\<close>

definition missionName :: "int \<Rightarrow> nat \<Rightarrow> string" where
  "missionName now i = ''mission-'' @ string_of_int now @ ''-'' @ string_of_nat i"

text \<open>
  The body of the \<^verbatim>\<open>for\<close> loop of \<^verbatim>\<open>createNewMissions\<close> at index \<open>i\<close>. The loop bound keeps
  \<open>i\<close> below the length of \<open>idleRobots\<close>; the guard writes that down.
\<close>

definition createMission :: "int \<Rightarrow> Robot list \<Rightarrow> nat \<Rightarrow> sim \<Rightarrow> sim" where
  "createMission now idleRobots i s =
     (if i < length idleRobots then
        (let missionId = missionName now i;
             robot = idleRobots ! i;
             mission = \<lparr>mission_id = missionId, assignedRobotId = Some (robot_id robot),
                        createdAt = now, currentStage = S_preparation, stageStartTime = now\<rparr>;
             s1 = s\<lparr>missions := AList.update missionId mission (missions s)\<rparr>
         in snd (updateRobot now (robot_id robot)
                   (no_updates\<lparr>u_status := Some R_assigned,
                               u_currentMissionId := Some (Some missionId)\<rparr>) s1))
      else s)"

definition createNewMissions :: "int \<Rightarrow> sim \<Rightarrow> sim" where
  "createNewMissions now s =
     (let idleRobots = getIdleRobots s;
          missionsToCreate = min 2 (length idleRobots)
      in fold (createMission now idleRobots) [0..<missionsToCreate] s)"

section \<open>Mission lifecycle engine\<close>

definition stages :: "Stage list" where
  "stages = [S_preparation, S_travel, S_delivery, S_completed]"

text \<open>
  The callback of \<^verbatim>\<open>getAllRobots().forEach\<close> in \<^verbatim>\<open>updateRobotStates\<close>. \<open>robot\<close> is the
  object of the snapshot array; the mission is read from, and written back to, the
  store under the key \<^verbatim>\<open>robot.currentMissionId\<close> (the source mutates the stored object in
  place). \<^verbatim>\<open>timeInStage >= duration\<close> compares milliseconds divided by 1000 with
  seconds; on integers that is \<open>duration * 1000 \<le> now - stageStartTime\<close>.
  Neither table lookup can fail: the first comes after the \<^verbatim>\<open>cancelled\<close> test, the second
  reads the entry of a member of \<open>stages\<close>; their \<open>None\<close> branches are dead (lemmas
  \<open>missionStages_Some\<close> and \<open>next_stage_table\<close> below).

  The read \<^verbatim>\<open>missions[robot.currentMissionId]\<close> is written \<open>map_of\<close>: own key or skip. That is
  the code's behaviour unless the held id is no own key and names an inherited property,
  where the code gets a truthy object without \<^verbatim>\<open>stageStartTime\<close> and throws at \<^verbatim>\<open>getTime()\<close>,
  which ends the \<^verbatim>\<open>forEach\<close>. The predicate \<open>held_ids_readable\<close> below excludes that; it holds
  in every state the program reaches and is kept by a tick (lemmas
  \<open>reachable_held_ids_readable\<close> and \<open>tick_held_ids_readable\<close>), and the theorems on what a tick
  achieves assume it.
\<close>

definition advanceRobot :: "int \<Rightarrow> Robot \<Rightarrow> sim \<Rightarrow> sim" where
  "advanceRobot now robot s =
     (if \<not> truthy (currentMissionId robot) then s
      else
        (case currentMissionId robot of
           None \<Rightarrow> s
         | Some key \<Rightarrow>
            (case map_of (missions s) key of
               None \<Rightarrow> s
             | Some mission \<Rightarrow>
                (if currentStage mission = S_cancelled then s
                 else
                   (case missionStages (currentStage mission) of
                      None \<Rightarrow> s
                    | Some currentStageInfo \<Rightarrow>
                       (if duration currentStageInfo * 1000 \<le> now - stageStartTime mission then
                          (let currentIndex = indexOf stages (currentStage mission);
                               nextStage = array_get stages (currentIndex + 1)
                           in (case nextStage of
                                 Some next \<Rightarrow>
                                  (let mission' =
                                         mission\<lparr>currentStage := next, stageStartTime := now\<rparr>;
                                       s1 = s\<lparr>missions :=
                                               AList.update key mission' (missions s)\<rparr>
                                   in (case missionStages next of
                                         None \<Rightarrow> s1
                                       | Some info \<Rightarrow>
                                          snd (updateRobot now (robot_id robot)
                                                 (no_updates\<lparr>u_status := Some (robotStatus info)\<rparr>)
                                                 s1)))
                               | None \<Rightarrow>
                                  (if currentStage mission = S_completed then
                                     snd (updateRobot now (robot_id robot)
                                            (no_updates\<lparr>u_status := Some R_idle,
                                                        u_currentMissionId := Some None\<rparr>) s)
                                   else s)))
                        else s))))))"

definition updateRobotStates :: "int \<Rightarrow> sim \<Rightarrow> sim" where
  "updateRobotStates now s = fold (advanceRobot now) (getAllRobots s) s"

text \<open>
  In \<^verbatim>\<open>cancelRobotMission\<close> both reads are written \<open>map_of\<close>. For a robot id that is no own key
  the code returns false whether the id is inherited or not (an inherited value has no
  \<^verbatim>\<open>currentMissionId\<close>). For a held mission id that is no own key, the code writes nothing to
  the mission store in either case (for an inherited one the assignment
  \<^verbatim>\<open>mission.currentStage = 'cancelled'\<close> lands on the inherited object, not in a store).
\<close>

definition cancelRobotMission :: "int \<Rightarrow> string \<Rightarrow> sim \<Rightarrow> bool \<times> sim" where
  "cancelRobotMission now robotId s =
     (case map_of (robots s) robotId of
        None \<Rightarrow> (False, s)
      | Some robot \<Rightarrow>
         (if \<not> truthy (currentMissionId robot) then (False, s)
          else
            (case currentMissionId robot of
               None \<Rightarrow> (False, s)
             | Some key \<Rightarrow>
                (let s1 = (case map_of (missions s) key of
                             None \<Rightarrow> s
                           | Some mission \<Rightarrow>
                              s\<lparr>missions :=
                                  AList.update key (mission\<lparr>currentStage := S_cancelled\<rparr>)
                                    (missions s)\<rparr>)
                 in (True, snd (updateRobot now robotId
                                  (no_updates\<lparr>u_status := Some R_idle,
                                              u_currentMissionId := Some None\<rparr>) s1))))))"

section \<open>Read model\<close>

record Stats =
  totalRobots :: nat
  idleRobots :: nat
  totalMissions :: nat
  activeMissions :: nat
  completedMissions :: nat
  cancelledMissions :: nat

text \<open>
  The handler of \<^verbatim>\<open>GET /api/stats\<close>: the JSON body it sends, and the state it leaves.
\<close>

definition api_stats :: "sim \<Rightarrow> Stats \<times> sim" where
  "api_stats s =
     (let missionArray = map snd (missions s)
      in (\<lparr>totalRobots = length (map fst (robots s)),
           idleRobots = length (getIdleRobots s),
           totalMissions = length (map fst (missions s)),
           activeMissions =
             length (filter (\<lambda>m. currentStage m \<noteq> S_completed \<and> currentStage m \<noteq> S_cancelled)
                       missionArray),
           completedMissions = length (filter (\<lambda>m. currentStage m = S_completed) missionArray),
           cancelledMissions = length (filter (\<lambda>m. currentStage m = S_cancelled) missionArray)\<rparr>,
          s))"

section \<open>Vocabulary of the properties\<close>

text \<open>
  The successor of a stage in the fixed sequence; the last stage and \<open>S_cancelled\<close> have none.
  For every stage but \<open>S_cancelled\<close> it is what the code computes as
  \<^verbatim>\<open>stages[stages.indexOf(stage) + 1]\<close> (lemma \<open>next_stage_code\<close>); the proofs use it, the
  theorems on the code are stated with the code's expression.
\<close>

fun next_stage :: "Stage \<Rightarrow> Stage option" where
  "next_stage S_preparation = Some S_travel"
| "next_stage S_travel = Some S_delivery"
| "next_stage S_delivery = Some S_completed"
| "next_stage S_completed = None"
| "next_stage S_cancelled = None"

text \<open>The robot invariant of the data model: idle exactly when no mission is referenced.\<close>

definition robot_inv :: "Robot \<Rightarrow> bool" where
  "robot_inv r \<longleftrightarrow> (status r = R_idle \<longleftrightarrow> currentMissionId r = None)"

text \<open>
  A mission is due at clock reading \<open>now\<close> when its stage has a table entry and at least
  that entry's duration (seconds) has passed since \<open>stageStartTime\<close> (milliseconds).
\<close>

definition due :: "int \<Rightarrow> Mission \<Rightarrow> bool" where
  "due now m =
     (case missionStages (currentStage m) of
        None \<Rightarrow> False
      | Some info \<Rightarrow> duration info * 1000 \<le> now - stageStartTime m)"

text \<open>
  Shape of a registry as the program builds it: a JavaScript object has each key once,
  every record is stored under its own \<^verbatim>\<open>id\<close>, and a mission id is never the empty string.
\<close>

definition wf_fleet :: "(string \<times> Robot) list \<Rightarrow> bool" where
  "wf_fleet rs \<longleftrightarrow>
     distinct (map fst rs) \<and> (\<forall>(k, r) \<in> set rs. robot_id r = k \<and> currentMissionId r \<noteq> Some [])"

text \<open>
  No robot of the registry holds a mission id that the mission store would answer with an
  inherited property: the condition under which no callback of a tick throws.
\<close>

definition held_ids_readable :: "sim \<Rightarrow> bool" where
  "held_ids_readable s \<longleftrightarrow>
     (\<forall>(k, r) \<in> set (robots s). \<forall>key. currentMissionId r = Some key \<longrightarrow>
        obj_get (missions s) key \<noteq> Inherited)"

definition fleet_inv :: "sim \<Rightarrow> bool" where
  "fleet_inv s \<longleftrightarrow> wf_fleet (robots s) \<and> (\<forall>(k, r) \<in> set (robots s). robot_inv r)"

text \<open>
  The states the running program goes through: the initialized fleet, then any
  interleaving of creation ticks, advancement ticks and cancellation requests, each at any
  clock reading.
\<close>

inductive reachable :: "sim \<Rightarrow> bool" where
  init: "reachable (initial now)"
| create: "reachable s \<Longrightarrow> reachable (createNewMissions now s)"
| tick: "reachable s \<Longrightarrow> reachable (updateRobotStates now s)"
| cancel: "reachable s \<Longrightarrow> reachable (snd (cancelRobotMission now robotId s))"

text \<open>A run of advancement ticks at the given clock readings, and the stage a mission shows
  before the run and after each of its ticks.\<close>

fun run_ticks :: "int list \<Rightarrow> sim \<Rightarrow> sim" where
  "run_ticks [] s = s"
| "run_ticks (now # nows) s = run_ticks nows (updateRobotStates now s)"

definition stage_at :: "sim \<Rightarrow> string \<Rightarrow> Stage option" where
  "stage_at s key = map_option currentStage (map_of (missions s) key)"

fun stage_trace :: "string \<Rightarrow> int list \<Rightarrow> sim \<Rightarrow> Stage option list" where
  "stage_trace key [] s = [stage_at s key]"
| "stage_trace key (now # nows) s = stage_at s key # stage_trace key nows (updateRobotStates now s)"

text \<open>The clock readings of \<open>n\<close> ticks fired every \<open>T\<close> milliseconds from \<open>t0\<close> on.\<close>

definition periodic :: "int \<Rightarrow> int \<Rightarrow> nat \<Rightarrow> int list" where
  "periodic t0 T n = map (\<lambda>i. t0 + int i * T) [0..<n]"


text \<open>A small fleet in mid-operation, used to instantiate the theorems.\<close>

definition demo :: sim where
  "demo =
     \<lparr>robots =
        [(''robot-1'', \<lparr>robot_id = ''robot-1'', status = R_en_route,
                        currentMissionId = Some ''mission-0-0'', lastUpdated = 30000\<rparr>),
         (''robot-2'', \<lparr>robot_id = ''robot-2'', status = R_idle,
                        currentMissionId = None, lastUpdated = 0\<rparr>),
         (''robot-3'', \<lparr>robot_id = ''robot-3'', status = R_idle,
                        currentMissionId = None, lastUpdated = 0\<rparr>)],
      missions =
        [(''mission-0-0'', \<lparr>mission_id = ''mission-0-0'', assignedRobotId = Some ''robot-1'',
                            createdAt = 0, currentStage = S_travel, stageStartTime = 30000\<rparr>)]\<rparr>"

text \<open>The same fleet after its mission record was lost: robot-1 refers to a record that is absent.\<close>

definition demo_dangling :: sim where
  "demo_dangling = demo\<lparr>missions := []\<rparr>"

section \<open>Association lists and the registry update\<close>

lemma set_update_subset: "set (AList.update k v al) \<subseteq> insert (k, v) (set al)"
  by (induction al) auto

lemma update_keys_present: "map_of al k = Some v' \<Longrightarrow> map fst (AList.update k v al) = map fst al"
  by (simp add: update_keys map_of_eq_None_iff[symmetric] del: map_of_eq_None_iff)

lemma obj_get_Own [simp]: "map_of obj key = Some v \<Longrightarrow> obj_get obj key = Own v"
  by (simp add: obj_get_def)

lemma obj_get_Own_iff: "obj_get obj key = Own v \<longleftrightarrow> map_of obj key = Some v"
  by (simp add: obj_get_def split: option.splits)

lemma obj_get_Missing_iff:
  "obj_get obj key = Missing \<longleftrightarrow> map_of obj key = None \<and> key \<notin> set object_prototype_keys"
  by (simp add: obj_get_def split: option.splits)

lemma obj_get_Inherited_iff:
  "obj_get obj key = Inherited \<longleftrightarrow> map_of obj key = None \<and> key \<in> set object_prototype_keys"
  by (simp add: obj_get_def split: option.splits)

lemma updateRobot_missions [simp]: "missions (snd (updateRobot now ident updates s)) = missions s"
  by (simp add: updateRobot_def Let_def split: property.splits)

lemma updateRobot_keys [simp]:
  "map fst (robots (snd (updateRobot now ident updates s))) = map fst (robots s)"
  by (auto simp: updateRobot_def Let_def update_keys_present obj_get_Own_iff split: property.splits)

lemma updateRobot_lookup:
  "map_of (robots (snd (updateRobot now ident updates s))) k =
     (if k = ident then map_option (\<lambda>r. spread r updates now) (map_of (robots s) ident)
      else map_of (robots s) k)"
  by (auto simp: updateRobot_def Let_def update_conv' obj_get_def split: property.splits option.splits if_splits)

lemma updateRobot_None: "map_of (robots s) ident = None \<Longrightarrow> snd (updateRobot now ident updates s) = s"
  by (simp add: updateRobot_def obj_get_def)




lemma updateRobot_Some:
  "map_of (robots s) ident = Some robot \<Longrightarrow>
   updateRobot now ident updates s =
     (Updated (spread robot updates now),
      s\<lparr>robots := AList.update ident (spread robot updates now) (robots s)\<rparr>)"
  by (simp add: updateRobot_def Let_def)




section \<open>Cancellation\<close>

lemma cancelRobotMission_unknown:
  "map_of (robots s) robotId = None \<Longrightarrow> cancelRobotMission now robotId s = (False, s)"
  by (simp add: cancelRobotMission_def)

lemma cancelRobotMission_falsy:
  "map_of (robots s) robotId = Some r \<Longrightarrow> \<not> truthy (currentMissionId r) \<Longrightarrow>
   cancelRobotMission now robotId s = (False, s)"
  by (simp add: cancelRobotMission_def)

lemma cancelRobotMission_dangling:
  "map_of (robots s) robotId = Some r \<Longrightarrow> currentMissionId r = Some key \<Longrightarrow> key \<noteq> [] \<Longrightarrow>
   map_of (missions s) key = None \<Longrightarrow>
   cancelRobotMission now robotId s =
     (True, snd (updateRobot now robotId
                   (no_updates\<lparr>u_status := Some R_idle, u_currentMissionId := Some None\<rparr>) s))"
  by (simp add: cancelRobotMission_def)

lemma cancelRobotMission_bound:
  "map_of (robots s) robotId = Some r \<Longrightarrow> currentMissionId r = Some key \<Longrightarrow> key \<noteq> [] \<Longrightarrow>
   map_of (missions s) key = Some m \<Longrightarrow>
   cancelRobotMission now robotId s =
     (True, snd (updateRobot now robotId
                   (no_updates\<lparr>u_status := Some R_idle, u_currentMissionId := Some None\<rparr>)
                   (s\<lparr>missions := AList.update key (m\<lparr>currentStage := S_cancelled\<rparr>) (missions s)\<rparr>)))"
  by (simp add: cancelRobotMission_def)

lemma spread_idle:
  "spread r (no_updates\<lparr>u_status := Some R_idle, u_currentMissionId := Some None\<rparr>) now =
     r\<lparr>status := R_idle, currentMissionId := None, lastUpdated := now\<rparr>"
  by (simp add: spread_def no_updates_def)

lemma spread_status:
  "spread r (no_updates\<lparr>u_status := Some st\<rparr>) now = r\<lparr>status := st, lastUpdated := now\<rparr>"
  by (simp add: spread_def no_updates_def)

lemma spread_assign:
  "spread r (no_updates\<lparr>u_status := Some R_assigned, u_currentMissionId := Some (Some key)\<rparr>) now =
     r\<lparr>status := R_assigned, currentMissionId := Some key, lastUpdated := now\<rparr>"
  by (simp add: spread_def no_updates_def)

text \<open>
  Claim C4 (cancellation contract). In a registry whose robots never hold the empty
  string as mission id (the program generates none), \<open>cancelRobotMission\<close> returns false
  exactly when the robot id is unknown or the robot's \<open>currentMissionId\<close> is null, and then
  the state is unchanged. When it returns true the robot had a mission id; the robot is
  now idle with a null mission id and \<open>lastUpdated\<close> stamped, the mission record under that
  id (if there is one) has stage cancelled, no other robot or mission changed, and a second
  cancellation of the same robot returns false and changes nothing.
\<close>

theorem cancelRobotMission_contract:
  assumes res: "cancelRobotMission now robotId s = (ok, s')"
    and ids: "\<forall>r. map_of (robots s) robotId = Some r \<longrightarrow> currentMissionId r \<noteq> Some []"
  shows "(\<not> ok \<longleftrightarrow>
            (map_of (robots s) robotId = None \<or>
             (\<exists>r. map_of (robots s) robotId = Some r \<and> currentMissionId r = None))) \<and>
         (\<not> ok \<longrightarrow> s' = s) \<and>
         (ok \<longrightarrow>
            (\<exists>r key. map_of (robots s) robotId = Some r \<and> currentMissionId r = Some key \<and>
               map_of (robots s') robotId =
                 Some (r\<lparr>status := R_idle, currentMissionId := None, lastUpdated := now\<rparr>) \<and>
               (\<forall>m. map_of (missions s) key = Some m \<longrightarrow>
                    map_of (missions s') key = Some (m\<lparr>currentStage := S_cancelled\<rparr>)) \<and>
               (\<forall>k. k \<noteq> robotId \<longrightarrow> map_of (robots s') k = map_of (robots s) k) \<and>
               (\<forall>k. k \<noteq> key \<longrightarrow> map_of (missions s') k = map_of (missions s) k)) \<and>
            cancelRobotMission now' robotId s' = (False, s'))"
proof (cases "map_of (robots s) robotId")
  case None
  with res show ?thesis by (simp add: cancelRobotMission_unknown)
next
  case (Some r)
  show ?thesis
  proof (cases "currentMissionId r")
    case None
    with Some res show ?thesis by (simp add: cancelRobotMission_falsy)
  next
    case (Some key)
    with \<open>map_of (robots s) robotId = Some r\<close> ids have key: "key \<noteq> []" by auto
    note r = \<open>map_of (robots s) robotId = Some r\<close>
    let ?u = "no_updates\<lparr>u_status := Some R_idle, u_currentMissionId := Some None\<rparr>"
    show ?thesis
    proof (cases "map_of (missions s) key")
      case None
      from cancelRobotMission_dangling [OF r Some key None] res
      have ok: ok and s': "s' = snd (updateRobot now robotId ?u s)" by simp_all
      have again: "map_of (robots s') robotId =
          Some (r\<lparr>status := R_idle, currentMissionId := None, lastUpdated := now\<rparr>)"
        by (simp add: s' updateRobot_lookup r spread_idle)
      then have "cancelRobotMission now' robotId s' = (False, s')"
        by (simp add: cancelRobotMission_falsy)
      with ok again r Some None show ?thesis
        by (auto simp: s' updateRobot_lookup)
    next
      case (Some m)
      note cm = \<open>currentMissionId r = Some key\<close>
      let ?s1 = "s\<lparr>missions := AList.update key (m\<lparr>currentStage := S_cancelled\<rparr>) (missions s)\<rparr>"
      from cancelRobotMission_bound [OF r cm key Some] res
      have ok: ok and s': "s' = snd (updateRobot now robotId ?u ?s1)" by simp_all
      have again: "map_of (robots s') robotId =
          Some (r\<lparr>status := R_idle, currentMissionId := None, lastUpdated := now\<rparr>)"
        by (simp add: s' updateRobot_lookup r spread_idle)
      then have "cancelRobotMission now' robotId s' = (False, s')"
        by (simp add: cancelRobotMission_falsy)
      with ok again r cm Some show ?thesis
        by (auto simp: s' updateRobot_lookup update_conv')
    qed
  qed
qed

theorem cancelRobotMission_contract_witness:
  "cancelRobotMission 40000 ''robot-1'' demo =
     (True,
      \<lparr>robots =
        [(''robot-1'', \<lparr>robot_id = ''robot-1'', status = R_idle,
                        currentMissionId = None, lastUpdated = 40000\<rparr>),
         (''robot-2'', \<lparr>robot_id = ''robot-2'', status = R_idle,
                        currentMissionId = None, lastUpdated = 0\<rparr>),
         (''robot-3'', \<lparr>robot_id = ''robot-3'', status = R_idle,
                        currentMissionId = None, lastUpdated = 0\<rparr>)],
      missions =
        [(''mission-0-0'', \<lparr>mission_id = ''mission-0-0'', assignedRobotId = Some ''robot-1'',
                            createdAt = 0, currentStage = S_cancelled, stageStartTime = 30000\<rparr>)]\<rparr>) \<and>
   cancelRobotMission 50000 ''robot-1'' (snd (cancelRobotMission 40000 ''robot-1'' demo)) =
     (False, snd (cancelRobotMission 40000 ''robot-1'' demo)) \<and>
   cancelRobotMission 40000 ''robot-2'' demo = (False, demo)"
proof -
  have run: "cancelRobotMission 40000 ''robot-1'' demo =
      (True, snd (cancelRobotMission 40000 ''robot-1'' demo))"
    by (simp add: demo_def cancelRobotMission_def updateRobot_def obj_get_def Let_def)
  have ids: "\<forall>r. map_of (robots demo) ''robot-1'' = Some r \<longrightarrow> currentMissionId r \<noteq> Some []"
    by (simp add: demo_def)
  have run2: "cancelRobotMission 40000 ''robot-2'' demo = (False, demo)"
    by (simp add: demo_def cancelRobotMission_def)
  have ids2: "\<forall>r. map_of (robots demo) ''robot-2'' = Some r \<longrightarrow> currentMissionId r \<noteq> Some []"
    by (simp add: demo_def)
  from cancelRobotMission_contract [OF run ids, of 50000] cancelRobotMission_contract [OF run2 ids2]
  show ?thesis
    by (simp add: demo_def cancelRobotMission_def updateRobot_def obj_get_def Let_def spread_def
        no_updates_def)
qed


text \<open>
  Claim C10 (cancelling a dangling reference). A robot that is in the registry and holds a
  (non-empty) mission id is cancelled successfully whether or not the mission store has a
  record under that id: the call returns true and the robot becomes idle with a null
  mission id. When the record is absent the mission store is left exactly as it was; when
  it is present the store differs only in that record, whose stage becomes cancelled.
\<close>

theorem cancel_without_mission_record:
  assumes r: "map_of (robots s) robotId = Some r"
    and cm: "currentMissionId r = Some key"
    and key: "key \<noteq> []"
  shows "fst (cancelRobotMission now robotId s) \<and>
         map_of (robots (snd (cancelRobotMission now robotId s))) robotId =
           Some (r\<lparr>status := R_idle, currentMissionId := None, lastUpdated := now\<rparr>) \<and>
         (map_of (missions s) key = None \<longrightarrow>
            missions (snd (cancelRobotMission now robotId s)) = missions s) \<and>
         (\<forall>m. map_of (missions s) key = Some m \<longrightarrow>
            missions (snd (cancelRobotMission now robotId s)) =
              AList.update key (m\<lparr>currentStage := S_cancelled\<rparr>) (missions s))"
proof (cases "map_of (missions s) key")
  case None
  show ?thesis
    by (simp add: cancelRobotMission_dangling [OF r cm key None] None updateRobot_lookup r spread_idle)
next
  case (Some m)
  show ?thesis
    by (simp add: cancelRobotMission_bound [OF r cm key Some] Some updateRobot_lookup r spread_idle)
qed

theorem cancel_without_mission_record_witness:
  "map_of (missions demo_dangling) ''mission-0-0'' = None \<and>
   fst (cancelRobotMission 40000 ''robot-1'' demo_dangling) \<and>
   map_of (robots (snd (cancelRobotMission 40000 ''robot-1'' demo_dangling))) ''robot-1'' =
     Some \<lparr>robot_id = ''robot-1'', status = R_idle, currentMissionId = None, lastUpdated = 40000\<rparr> \<and>
   missions (snd (cancelRobotMission 40000 ''robot-1'' demo_dangling)) = []"
proof -
  have r: "map_of (robots demo_dangling) ''robot-1'' =
      Some \<lparr>robot_id = ''robot-1'', status = R_en_route,
            currentMissionId = Some ''mission-0-0'', lastUpdated = 30000\<rparr>"
    by (simp add: demo_dangling_def demo_def)
  have none: "map_of (missions demo_dangling) ''mission-0-0'' = None"
    by (simp add: demo_dangling_def)
  from cancel_without_mission_record [OF r, of "''mission-0-0''" 40000] none
  show ?thesis by (simp add: demo_dangling_def)
qed

section \<open>Statistics\<close>

text \<open>
  Claim C8 (stats derivation). The stats handler leaves the state as it found it and reports
  the number of robots, of idle robots, of missions, of missions whose stage is neither
  completed nor cancelled, of completed missions and of cancelled missions.
\<close>

theorem api_stats_counts:
  "snd (api_stats s) = s \<and>
   totalRobots (fst (api_stats s)) = length (robots s) \<and>
   idleRobots (fst (api_stats s)) = length (filter (\<lambda>(k, r). status r = R_idle) (robots s)) \<and>
   totalMissions (fst (api_stats s)) = length (missions s) \<and>
   activeMissions (fst (api_stats s)) =
     length (filter (\<lambda>(k, m). currentStage m \<notin> {S_completed, S_cancelled}) (missions s)) \<and>
   completedMissions (fst (api_stats s)) =
     length (filter (\<lambda>(k, m). currentStage m = S_completed) (missions s)) \<and>
   cancelledMissions (fst (api_stats s)) =
     length (filter (\<lambda>(k, m). currentStage m = S_cancelled) (missions s))"
proof -
  show ?thesis
    by (simp add: api_stats_def Let_def getIdleRobots_def getAllRobots_def comp_def
        case_prod_unfold)
qed

theorem api_stats_counts_witness:
  "api_stats demo =
     (\<lparr>totalRobots = 3, idleRobots = 2, totalMissions = 1, activeMissions = 1,
       completedMissions = 0, cancelledMissions = 0\<rparr>, demo)"
  using api_stats_counts [of demo]
  by (simp add: api_stats_def demo_def getIdleRobots_def getAllRobots_def)


section \<open>The advancement callback\<close>

lemma next_stage_code:
  "st \<noteq> S_cancelled \<Longrightarrow> array_get stages (indexOf stages st + 1) = next_stage st"
  by (cases st) (simp_all add: stages_def array_get_def)

lemma next_stage_table: "next_stage st = Some next \<Longrightarrow> \<exists>info. missionStages next = Some info \<and> 0 < duration info \<and> robotStatus info \<noteq> R_idle"
  by (cases st) auto

lemma due_not_cancelled: "due now m \<Longrightarrow> currentStage m \<noteq> S_cancelled"
  by (auto simp: due_def)

lemma next_stage_None: "st \<noteq> S_cancelled \<Longrightarrow> next_stage st = None \<longleftrightarrow> st = S_completed"
  by (cases st) auto

lemma advanceRobot_idle: "\<not> truthy (currentMissionId robot) \<Longrightarrow> advanceRobot now robot s = s"
  by (simp add: advanceRobot_def)

lemma advanceRobot_missing:
  "currentMissionId robot = Some key \<Longrightarrow> map_of (missions s) key = None \<Longrightarrow>
   advanceRobot now robot s = s"
  by (simp add: advanceRobot_def)

lemma advanceRobot_not_due:
  "currentMissionId robot = Some key \<Longrightarrow> map_of (missions s) key = Some m \<Longrightarrow> \<not> due now m \<Longrightarrow>
   advanceRobot now robot s = s"
  by (auto simp: advanceRobot_def due_def split: option.splits)

lemma advanceRobot_step:
  assumes "currentMissionId robot = Some key" "key \<noteq> []" "map_of (missions s) key = Some m"
    "due now m" "next_stage (currentStage m) = Some next" "missionStages next = Some info"
  shows "advanceRobot now robot s =
     snd (updateRobot now (robot_id robot) (no_updates\<lparr>u_status := Some (robotStatus info)\<rparr>)
            (s\<lparr>missions := AList.update key (m\<lparr>currentStage := next, stageStartTime := now\<rparr>)
                             (missions s)\<rparr>))"
proof -
  from assms(4) have nc: "currentStage m \<noteq> S_cancelled" by (rule due_not_cancelled)
  from assms(4) obtain ci where ci: "missionStages (currentStage m) = Some ci"
    "duration ci * 1000 \<le> now - stageStartTime m"
    by (auto simp: due_def split: option.splits)
  show ?thesis
    using assms(1,2,3,5,6) nc ci
    by (simp add: advanceRobot_def next_stage_code Let_def)
qed

lemma advanceRobot_finish:
  assumes "currentMissionId robot = Some key" "key \<noteq> []" "map_of (missions s) key = Some m"
    "due now m" "currentStage m = S_completed"
  shows "advanceRobot now robot s =
     snd (updateRobot now (robot_id robot)
            (no_updates\<lparr>u_status := Some R_idle, u_currentMissionId := Some None\<rparr>) s)"
proof -
  from assms(4) obtain ci where ci: "missionStages (currentStage m) = Some ci"
    "duration ci * 1000 \<le> now - stageStartTime m"
    by (auto simp: due_def split: option.splits)
  show ?thesis
    using assms(1,2,3,5) ci
    by (simp add: advanceRobot_def next_stage_code Let_def)
qed

text \<open>The three things one callback invocation can do.\<close>

lemma advanceRobot_cases:
  obtains (skip) "advanceRobot now robot s = s"
  | (step) key m "next" info where
      "currentMissionId robot = Some key" "key \<noteq> []" "map_of (missions s) key = Some m"
      "due now m" "next_stage (currentStage m) = Some next" "missionStages next = Some info"
      "0 < duration info" "robotStatus info \<noteq> R_idle"
      "advanceRobot now robot s =
         snd (updateRobot now (robot_id robot) (no_updates\<lparr>u_status := Some (robotStatus info)\<rparr>)
            (s\<lparr>missions := AList.update key (m\<lparr>currentStage := next, stageStartTime := now\<rparr>)
                             (missions s)\<rparr>))"
  | (finish) key m where
      "currentMissionId robot = Some key" "key \<noteq> []" "map_of (missions s) key = Some m"
      "due now m" "currentStage m = S_completed"
      "advanceRobot now robot s =
         snd (updateRobot now (robot_id robot)
            (no_updates\<lparr>u_status := Some R_idle, u_currentMissionId := Some None\<rparr>) s)"
proof (cases "truthy (currentMissionId robot)")
  case False
  then show ?thesis using skip by (simp add: advanceRobot_idle)
next
  case True
  then obtain key where key: "currentMissionId robot = Some key" "key \<noteq> []"
    by (cases "currentMissionId robot") auto
  show ?thesis
  proof (cases "map_of (missions s) key")
    case None
    with key show ?thesis using skip by (simp add: advanceRobot_missing)
  next
    case (Some m)
    show ?thesis
    proof (cases "due now m")
      case False
      with key Some show ?thesis using skip by (simp add: advanceRobot_not_due)
    next
      case True
      then have nc: "currentStage m \<noteq> S_cancelled" by (rule due_not_cancelled)
      show ?thesis
      proof (cases "next_stage (currentStage m)")
        case None
        with nc have "currentStage m = S_completed" by (simp add: next_stage_None)
        with key Some True show ?thesis using finish advanceRobot_finish by blast
      next
        case (Some "next")
        from next_stage_table [OF Some] obtain info where
          "missionStages next = Some info" "0 < duration info" "robotStatus info \<noteq> R_idle"
          by blast
        with key \<open>map_of (missions s) key = Some m\<close> True Some show ?thesis
          using step advanceRobot_step by blast
      qed
    qed
  qed
qed

lemma advanceRobot_missions_keys [simp]:
  "map fst (missions (advanceRobot now robot s)) = map fst (missions s)"
  by (cases now robot s rule: advanceRobot_cases) (simp_all add: update_keys_present)

lemma advanceRobot_robots_keys [simp]:
  "map fst (robots (advanceRobot now robot s)) = map fst (robots s)"
  by (cases now robot s rule: advanceRobot_cases) simp_all

lemma advanceRobot_robot_other:
  "k \<noteq> robot_id robot \<Longrightarrow> map_of (robots (advanceRobot now robot s)) k = map_of (robots s) k"
  by (cases now robot s rule: advanceRobot_cases) (simp_all add: updateRobot_lookup)


lemma advanceRobot_mission:
  assumes "map_of (missions s) key = Some m"
  shows "map_of (missions (advanceRobot now robot s)) key = Some m \<or>
         (due now m \<and> currentMissionId robot = Some key \<and>
          (\<exists>next. next_stage (currentStage m) = Some next \<and>
             map_of (missions (advanceRobot now robot s)) key =
               Some (m\<lparr>currentStage := next, stageStartTime := now\<rparr>)))"
  using assms
  by (cases now robot s rule: advanceRobot_cases) (auto simp: update_conv')

lemma not_due_after_step:
  "next_stage st = Some next \<Longrightarrow> \<not> due now (m\<lparr>currentStage := next, stageStartTime := now\<rparr>)"
  by (cases st) (auto simp: due_def)


section \<open>One advancement tick, seen from a mission\<close>

lemma fold_advance_missions_keys [simp]:
  "map fst (missions (fold (advanceRobot now) rs s)) = map fst (missions s)"
  by (induction rs arbitrary: s) simp_all

lemma fold_advance_robots_keys [simp]:
  "map fst (robots (fold (advanceRobot now) rs s)) = map fst (robots s)"
  by (induction rs arbitrary: s) simp_all

lemma fold_advance_mission:
  assumes "map_of (missions s) key = Some m'"
    and "m' = m \<or> (due now m \<and> (\<exists>next. next_stage (currentStage m) = Some next \<and>
                      m' = m\<lparr>currentStage := next, stageStartTime := now\<rparr>))"
  shows "\<exists>m''. map_of (missions (fold (advanceRobot now) rs s)) key = Some m'' \<and>
           (m'' = m \<or> (due now m \<and> (\<exists>next. next_stage (currentStage m) = Some next \<and>
                      m'' = m\<lparr>currentStage := next, stageStartTime := now\<rparr>)))"
  using assms
proof (induction rs arbitrary: s m')
  case Nil
  then show ?case by simp
next
  case (Cons r rs)
  from advanceRobot_mission [OF Cons.prems(1), of now r]
  consider (same) "map_of (missions (advanceRobot now r s)) key = Some m'"
    | (moved) "next" where "due now m'" "next_stage (currentStage m') = Some next"
        "map_of (missions (advanceRobot now r s)) key =
           Some (m'\<lparr>currentStage := next, stageStartTime := now\<rparr>)"
    by blast
  then show ?case
  proof cases
    case same
    from Cons.IH [OF same Cons.prems(2)] show ?thesis by simp
  next
    case moved
    from Cons.prems(2) moved(1) have "m' = m"
      using not_due_after_step by blast
    with moved have a: "map_of (missions (advanceRobot now r s)) key =
        Some (m\<lparr>currentStage := next, stageStartTime := now\<rparr>)"
      and d: "due now m" and n: "next_stage (currentStage m) = Some next" by simp_all
    from d n have b: "m\<lparr>currentStage := next, stageStartTime := now\<rparr> = m \<or>
        (due now m \<and> (\<exists>n'. next_stage (currentStage m) = Some n' \<and>
           m\<lparr>currentStage := next, stageStartTime := now\<rparr> =
           m\<lparr>currentStage := n', stageStartTime := now\<rparr>))"
      by blast
    from Cons.IH [OF a b] show ?thesis by simp
  qed
qed

lemma tick_mission:
  assumes "map_of (missions s) key = Some m"
  shows "\<exists>m'. map_of (missions (updateRobotStates now s)) key = Some m' \<and>
           (m' = m \<or> (due now m \<and> (\<exists>next. next_stage (currentStage m) = Some next \<and>
                      m' = m\<lparr>currentStage := next, stageStartTime := now\<rparr>)))"
  unfolding updateRobotStates_def
  using fold_advance_mission [OF assms, of m now] by simp

lemma tick_not_due:
  "map_of (missions s) key = Some m \<Longrightarrow> \<not> due now m \<Longrightarrow>
   map_of (missions (updateRobotStates now s)) key = Some m"
  using tick_mission [of s key m now] by auto

lemma cancelled_not_due: "currentStage m = S_cancelled \<Longrightarrow> \<not> due now m"
  by (simp add: due_def)

lemma run_ticks_cancelled:
  "map_of (missions s) key = Some m \<Longrightarrow> currentStage m = S_cancelled \<Longrightarrow>
   map_of (missions (run_ticks nows s)) key = Some m"
proof (induction nows arbitrary: s)
  case Nil
  then show ?case by simp
next
  case (Cons now nows)
  from tick_not_due [OF Cons.prems(1) cancelled_not_due [OF Cons.prems(2)]]
  have "map_of (missions (updateRobotStates now s)) key = Some m" .
  from Cons.IH [OF this Cons.prems(2)] show ?case by simp
qed

lemma run_ticks_append: "run_ticks (xs @ ys) s = run_ticks ys (run_ticks xs s)"
  by (induction xs arbitrary: s) simp_all

lemma stage_trace_hd: "\<exists>rest. stage_trace key nows s = stage_at s key # rest"
  by (cases nows) simp_all

lemma stages_from_unfold:
  "st \<noteq> S_cancelled \<Longrightarrow>
   dropWhile (\<lambda>x. x \<noteq> st) stages =
     st # (case next_stage st of None \<Rightarrow> [] | Some n \<Rightarrow> dropWhile (\<lambda>x. x \<noteq> n) stages)"
  by (cases st) (simp_all add: stages_def)

lemma next_stage_neq: "next_stage st = Some next \<Longrightarrow> next \<noteq> st \<and> next \<noteq> S_cancelled"
  by (cases st) auto


text \<open>
  Claim C2 (stage sequence). Take any mission that is in the store and not cancelled, and
  any run of advancement ticks, at any clock readings. The stages the mission shows before
  the run and after each tick, with immediate repetitions removed, form an initial part of
  the fixed sequence preparation, travel, delivery, completed taken from the mission's
  current stage on: each change is to the next stage, none is skipped or revisited, and
  nothing follows completed. A mission that starts in preparation thus shows an initial
  part of the whole sequence.
\<close>

theorem stage_sequence:
  assumes "map_of (missions s) key = Some m" and "currentStage m \<noteq> S_cancelled"
  shows "prefix (remdups_adj (stage_trace key nows s))
           (map Some (dropWhile (\<lambda>st. st \<noteq> currentStage m) stages))"
  using assms
proof (induction nows arbitrary: s m)
  case Nil
  then show ?case by (simp add: stage_at_def stages_from_unfold [of "currentStage m"])
next
  case (Cons now nows)
  let ?s1 = "updateRobotStates now s"
  from tick_mission [OF Cons.prems(1), of now] obtain m' where
    m': "map_of (missions ?s1) key = Some m'" and
    alt: "m' = m \<or> (\<exists>next. next_stage (currentStage m) = Some next \<and>
                      m' = m\<lparr>currentStage := next, stageStartTime := now\<rparr>)"
    by blast
  obtain rest where rest: "stage_trace key nows ?s1 = Some (currentStage m') # rest"
    using stage_trace_hd [of key nows ?s1] m' by (auto simp: stage_at_def)
  have here: "stage_at s key = Some (currentStage m)"
    using Cons.prems(1) by (simp add: stage_at_def)
  have tr: "stage_trace key (now # nows) s =
      Some (currentStage m) # Some (currentStage m') # rest"
    by (simp add: here rest)
  from alt show ?case
  proof
    assume same: "m' = m"
    from Cons.IH [OF m'] Cons.prems(2) same
    have "prefix (remdups_adj (Some (currentStage m) # rest))
            (map Some (dropWhile (\<lambda>st. st \<noteq> currentStage m) stages))" by (simp add: rest)
    then show ?thesis unfolding tr same by simp
  next
    assume "\<exists>next. next_stage (currentStage m) = Some next \<and>
                      m' = m\<lparr>currentStage := next, stageStartTime := now\<rparr>"
    then obtain "next" where nx: "next_stage (currentStage m) = Some next"
      and mv: "m' = m\<lparr>currentStage := next, stageStartTime := now\<rparr>" by blast
    from next_stage_neq [OF nx] have ne: "next \<noteq> currentStage m" "next \<noteq> S_cancelled" by simp_all
    from mv have st': "currentStage m' = next" by simp
    from Cons.IH [OF m'] ne(2) st'
    have ih: "prefix (remdups_adj (Some next # rest))
            (map Some (dropWhile (\<lambda>st. st \<noteq> next) stages))" by (simp add: rest)
    have unf: "dropWhile (\<lambda>st. st \<noteq> currentStage m) stages =
        currentStage m # dropWhile (\<lambda>st. st \<noteq> next) stages"
      using stages_from_unfold [OF Cons.prems(2)] nx by simp
    have "remdups_adj (Some (currentStage m) # Some next # rest) =
        Some (currentStage m) # remdups_adj (Some next # rest)"
      using ne(1) by simp
    then show ?thesis unfolding tr st' unf using ih by simp
  qed
qed


theorem stage_sequence_witness:
  "stage_trace ''mission-0-0'' [100000, 180000, 240000, 245000] demo =
     [Some S_travel, Some S_travel, Some S_delivery, Some S_completed, Some S_completed] \<and>
   prefix (remdups_adj (stage_trace ''mission-0-0'' [100000, 180000, 240000, 245000] demo))
     [Some S_travel, Some S_delivery, Some S_completed]"
proof -
  have m: "map_of (missions demo) ''mission-0-0'' =
      Some \<lparr>mission_id = ''mission-0-0'', assignedRobotId = Some ''robot-1'',
            createdAt = 0, currentStage = S_travel, stageStartTime = 30000\<rparr>"
    by (simp add: demo_def)
  have tr: "stage_trace ''mission-0-0'' [100000, 180000, 240000, 245000] demo =
     [Some S_travel, Some S_travel, Some S_delivery, Some S_completed, Some S_completed]"
    by code_simp
  from stage_sequence [OF m, of "[100000, 180000, 240000, 245000]"] tr
  show ?thesis by (simp add: stages_def)
qed


section \<open>Well-formed registries under the operations\<close>

lemma wf_fleet_map_of:
  "wf_fleet rs \<Longrightarrow> map_of rs k = Some r \<Longrightarrow> robot_id r = k \<and> currentMissionId r \<noteq> Some []"
  by (auto simp: wf_fleet_def dest!: map_of_SomeD)

lemma wf_fleet_mem: "wf_fleet rs \<Longrightarrow> (k, r) \<in> set rs \<Longrightarrow> map_of rs k = Some r"
  by (simp add: wf_fleet_def)

lemma wf_fleet_ids: "wf_fleet rs \<Longrightarrow> map robot_id (map snd rs) = map fst rs"
  by (auto simp: wf_fleet_def)

lemma wf_fleet_snapshot_lookup:
  "wf_fleet rs \<Longrightarrow> r \<in> set (map snd rs) \<Longrightarrow> map_of rs (robot_id r) = Some r"
  by (auto simp: wf_fleet_def)

lemma wf_fleet_update:
  assumes "wf_fleet rs" "robot_id v = k" "currentMissionId v \<noteq> Some []"
  shows "wf_fleet (AList.update k v rs)"
proof -
  from assms(1) have "distinct (map fst (AList.update k v rs))"
    by (simp add: wf_fleet_def distinct_update)
  moreover have "\<forall>(k', r) \<in> set (AList.update k v rs). robot_id r = k' \<and> currentMissionId r \<noteq> Some []"
    using assms set_update_subset [of k v rs] by (auto simp: wf_fleet_def)
  ultimately show ?thesis by (simp add: wf_fleet_def)
qed

lemma updateRobot_wf:
  assumes "wf_fleet (robots s)" "u_id updates = None" "u_currentMissionId updates \<noteq> Some (Some [])"
  shows "wf_fleet (robots (snd (updateRobot now ident updates s)))"
proof (cases "map_of (robots s) ident")
  case None
  with assms(1) show ?thesis by (simp add: updateRobot_None)
next
  case (Some r)
  from wf_fleet_map_of [OF assms(1) Some] assms(2,3)
  have "robot_id (spread r updates now) = ident" "currentMissionId (spread r updates now) \<noteq> Some []"
    by (auto simp: spread_def split: option.splits)
  with assms(1) show ?thesis by (simp add: updateRobot_Some [OF Some] wf_fleet_update)
qed

lemma advanceRobot_wf: "wf_fleet (robots s) \<Longrightarrow> wf_fleet (robots (advanceRobot now robot s))"
  by (cases now robot s rule: advanceRobot_cases) (simp_all add: updateRobot_wf no_updates_def)

lemma fold_advance_wf: "wf_fleet (robots s) \<Longrightarrow> wf_fleet (robots (fold (advanceRobot now) rs s))"
  by (induction rs arbitrary: s) (simp_all add: advanceRobot_wf)

lemma tick_wf: "wf_fleet (robots s) \<Longrightarrow> wf_fleet (robots (updateRobotStates now s))"
  by (simp add: updateRobotStates_def fold_advance_wf)

lemma run_ticks_wf: "wf_fleet (robots s) \<Longrightarrow> wf_fleet (robots (run_ticks nows s))"
  by (induction nows arbitrary: s) (simp_all add: tick_wf)

lemma cancel_wf: "wf_fleet (robots s) \<Longrightarrow> wf_fleet (robots (snd (cancelRobotMission now robotId s)))"
  by (auto simp: cancelRobotMission_def Let_def updateRobot_wf no_updates_def split: option.splits)

lemma fold_advance_robot_untouched:
  "(\<forall>r \<in> set rs. robot_id r = k \<longrightarrow> \<not> truthy (currentMissionId r)) \<Longrightarrow>
   map_of (robots (fold (advanceRobot now) rs s)) k = map_of (robots s) k"
proof (induction rs arbitrary: s)
  case Nil
  then show ?case by simp
next
  case (Cons r rs)
  have "map_of (robots (advanceRobot now r s)) k = map_of (robots s) k"
  proof (cases "robot_id r = k")
    case True
    with Cons.prems have "\<not> truthy (currentMissionId r)" by simp
    then show ?thesis by (simp add: advanceRobot_idle)
  next
    case False
    then show ?thesis by (simp add: advanceRobot_robot_other)
  qed
  moreover from Cons.prems have "\<forall>r \<in> set rs. robot_id r = k \<longrightarrow> \<not> truthy (currentMissionId r)"
    by simp
  ultimately show ?case using Cons.IH by simp
qed

lemma tick_idle_robot:
  assumes "wf_fleet (robots s)" "map_of (robots s) k = Some r" "currentMissionId r = None"
  shows "map_of (robots (updateRobotStates now s)) k = Some r"
proof -
  have "\<forall>r' \<in> set (getAllRobots s). robot_id r' = k \<longrightarrow> \<not> truthy (currentMissionId r')"
  proof (intro ballI impI)
    fix r' assume "r' \<in> set (getAllRobots s)" "robot_id r' = k"
    with wf_fleet_snapshot_lookup [OF assms(1), of r'] assms(2) have "r' = r"
      by (simp add: getAllRobots_def)
    with assms(3) show "\<not> truthy (currentMissionId r')" by simp
  qed
  from fold_advance_robot_untouched [OF this] assms(2) show ?thesis
    by (simp add: updateRobotStates_def)
qed

lemma run_ticks_idle_robot:
  "wf_fleet (robots s) \<Longrightarrow> map_of (robots s) k = Some r \<Longrightarrow> currentMissionId r = None \<Longrightarrow>
   map_of (robots (run_ticks nows s)) k = Some r"
proof (induction nows arbitrary: s)
  case Nil
  then show ?case by simp
next
  case (Cons now nows)
  have a: "wf_fleet (robots (updateRobotStates now s))"
    using Cons.prems(1) by (rule tick_wf)
  have b: "map_of (robots (updateRobotStates now s)) k = Some r"
    using Cons.prems by (rule tick_idle_robot)
  from Cons.IH [OF a b Cons.prems(3)] show ?case by simp
qed

text \<open>
  Claim C3 (cancelled is absorbing, cancellation wins). The callback returns the state
  untouched for a robot whose mission is cancelled: the test comes before any transition
  is computed. Hence a cancelled mission record, stage and \<open>stageStartTime\<close> included, is
  the same after any run of advancement ticks. In particular, when a robot of a well-formed
  registry is cancelled in the middle of a mission, then after any later ticks the mission
  is still cancelled with the \<open>stageStartTime\<close> it had, and the robot is still idle with a
  null mission id.
\<close>

theorem cancellation_wins:
  "(\<forall>robot key m t. currentMissionId robot = Some key \<and> map_of (missions s) key = Some m \<and>
      currentStage m = S_cancelled \<longrightarrow> advanceRobot t robot s = s) \<and>
   (\<forall>key m. map_of (missions s) key = Some m \<and> currentStage m = S_cancelled \<longrightarrow>
      map_of (missions (run_ticks nows s)) key = Some m) \<and>
   (\<forall>robotId r key m s'.
      wf_fleet (robots s) \<and> map_of (robots s) robotId = Some r \<and> currentMissionId r = Some key \<and>
      map_of (missions s) key = Some m \<and> cancelRobotMission now robotId s = (True, s') \<longrightarrow>
      map_of (missions (run_ticks nows s')) key = Some (m\<lparr>currentStage := S_cancelled\<rparr>) \<and>
      map_of (robots (run_ticks nows s')) robotId =
        Some (r\<lparr>status := R_idle, currentMissionId := None, lastUpdated := now\<rparr>))"
proof (intro conjI allI impI)
  fix robot :: Robot and key and m :: Mission and t
  assume "currentMissionId robot = Some key \<and> map_of (missions s) key = Some m \<and>
      currentStage m = S_cancelled"
  then show "advanceRobot t robot s = s"
    using advanceRobot_not_due cancelled_not_due by blast
next
  fix key m
  assume "map_of (missions s) key = Some m \<and> currentStage m = S_cancelled"
  then show "map_of (missions (run_ticks nows s)) key = Some m"
    by (simp add: run_ticks_cancelled)
next
  fix robotId r key m s'
  assume a: "wf_fleet (robots s) \<and> map_of (robots s) robotId = Some r \<and> currentMissionId r = Some key \<and>
      map_of (missions s) key = Some m \<and> cancelRobotMission now robotId s = (True, s')"
  then have wf: "wf_fleet (robots s)" and r: "map_of (robots s) robotId = Some r"
    and cm: "currentMissionId r = Some key" and m: "map_of (missions s) key = Some m"
    and c: "cancelRobotMission now robotId s = (True, s')" by simp_all
  from wf_fleet_map_of [OF wf r] cm have key: "key \<noteq> []" by auto
  from cancelRobotMission_bound [OF r cm key m, of now] c
  have s': "s' = snd (updateRobot now robotId
                   (no_updates\<lparr>u_status := Some R_idle, u_currentMissionId := Some None\<rparr>)
                   (s\<lparr>missions := AList.update key (m\<lparr>currentStage := S_cancelled\<rparr>) (missions s)\<rparr>))"
    by simp
  have m': "map_of (missions s') key = Some (m\<lparr>currentStage := S_cancelled\<rparr>)"
    by (simp add: s' update_conv')
  have r': "map_of (robots s') robotId =
      Some (r\<lparr>status := R_idle, currentMissionId := None, lastUpdated := now\<rparr>)"
    by (simp add: s' updateRobot_lookup r spread_idle)
  from cancel_wf [OF wf, of now robotId] c have wf': "wf_fleet (robots s')" by simp
  show "map_of (missions (run_ticks nows s')) key = Some (m\<lparr>currentStage := S_cancelled\<rparr>)"
    using run_ticks_cancelled [OF m'] by simp
  show "map_of (robots (run_ticks nows s')) robotId =
        Some (r\<lparr>status := R_idle, currentMissionId := None, lastUpdated := now\<rparr>)"
    using run_ticks_idle_robot [OF wf' r'] by simp
qed


theorem cancellation_wins_witness:
  "cancelRobotMission 40000 ''robot-1'' demo = (True, snd (cancelRobotMission 40000 ''robot-1'' demo)) \<and>
   map_of (missions (run_ticks [180000, 190000] (snd (cancelRobotMission 40000 ''robot-1'' demo))))
     ''mission-0-0'' =
     Some \<lparr>mission_id = ''mission-0-0'', assignedRobotId = Some ''robot-1'',
            createdAt = 0, currentStage = S_cancelled, stageStartTime = 30000\<rparr> \<and>
   map_of (robots (run_ticks [180000, 190000] (snd (cancelRobotMission 40000 ''robot-1'' demo))))
     ''robot-1'' =
     Some \<lparr>robot_id = ''robot-1'', status = R_idle, currentMissionId = None, lastUpdated = 40000\<rparr> \<and>
   stage_at (updateRobotStates 180000 demo) ''mission-0-0'' = Some S_delivery"
proof -
  have wf: "wf_fleet (robots demo)" by (simp add: demo_def wf_fleet_def)
  have r: "map_of (robots demo) ''robot-1'' =
      Some \<lparr>robot_id = ''robot-1'', status = R_en_route,
            currentMissionId = Some ''mission-0-0'', lastUpdated = 30000\<rparr>"
    by (simp add: demo_def)
  have m: "map_of (missions demo) ''mission-0-0'' =
      Some \<lparr>mission_id = ''mission-0-0'', assignedRobotId = Some ''robot-1'',
            createdAt = 0, currentStage = S_travel, stageStartTime = 30000\<rparr>"
    by (simp add: demo_def)
  have c: "cancelRobotMission 40000 ''robot-1'' demo =
      (True, snd (cancelRobotMission 40000 ''robot-1'' demo))"
    by (simp add: cancelRobotMission_def demo_def)
  have d: "stage_at (updateRobotStates 180000 demo) ''mission-0-0'' = Some S_delivery"
    by code_simp
  have pre: "wf_fleet (robots demo) \<and>
      map_of (robots demo) ''robot-1'' =
        Some \<lparr>robot_id = ''robot-1'', status = R_en_route,
              currentMissionId = Some ''mission-0-0'', lastUpdated = 30000\<rparr> \<and>
      currentMissionId \<lparr>robot_id = ''robot-1'', status = R_en_route,
              currentMissionId = Some ''mission-0-0'', lastUpdated = 30000\<rparr> = Some ''mission-0-0'' \<and>
      map_of (missions demo) ''mission-0-0'' =
        Some \<lparr>mission_id = ''mission-0-0'', assignedRobotId = Some ''robot-1'',
              createdAt = 0, currentStage = S_travel, stageStartTime = 30000\<rparr> \<and>
      cancelRobotMission 40000 ''robot-1'' demo =
        (True, snd (cancelRobotMission 40000 ''robot-1'' demo))"
    using wf r m c by simp
  from cancellation_wins [of demo "[180000, 190000]" 40000, THEN conjunct2, THEN conjunct2, rule_format, OF pre] c d
  show ?thesis by simp
qed


section \<open>One advancement tick, seen from a robot\<close>

lemma due_iff:
  "missionStages (currentStage m) = Some info \<Longrightarrow>
   due now m \<longleftrightarrow> duration info * 1000 \<le> now - stageStartTime m"
  by (simp add: due_def)



text \<open>A tick keeps the held mission ids readable: it changes no key of the mission store and
  gives no robot a mission id.\<close>

lemma advanceRobot_cmid:
  assumes "map_of (robots (advanceRobot now robot s)) k = Some r'"
  shows "\<exists>r0. map_of (robots s) k = Some r0 \<and>
           (currentMissionId r' = currentMissionId r0 \<or> currentMissionId r' = None)"
  using assms
  by (cases now robot s rule: advanceRobot_cases)
    (auto simp: updateRobot_lookup spread_status spread_idle split: if_splits)

lemma fold_advance_cmid:
  "map_of (robots (fold (advanceRobot now) rs s)) k = Some r' \<Longrightarrow>
   \<exists>r0. map_of (robots s) k = Some r0 \<and>
      (currentMissionId r' = currentMissionId r0 \<or> currentMissionId r' = None)"
proof (induction rs arbitrary: s r')
  case Nil
  then show ?case by simp
next
  case (Cons r rs)
  from Cons.prems have "map_of (robots (fold (advanceRobot now) rs (advanceRobot now r s))) k = Some r'"
    by simp
  from Cons.IH [OF this] obtain r1 where
    r1: "map_of (robots (advanceRobot now r s)) k = Some r1"
      "currentMissionId r' = currentMissionId r1 \<or> currentMissionId r' = None" by blast
  from advanceRobot_cmid [OF r1(1)] obtain r0 where
    "map_of (robots s) k = Some r0"
    "currentMissionId r1 = currentMissionId r0 \<or> currentMissionId r1 = None" by blast
  with r1(2) show ?case by auto
qed

lemma held_ids_readable_iff:
  assumes "wf_fleet (robots s)"
  shows "held_ids_readable s \<longleftrightarrow>
     (\<forall>k r key. map_of (robots s) k = Some r \<and> currentMissionId r = Some key \<longrightarrow>
        obj_get (missions s) key \<noteq> Inherited)"
proof -
  from assms have d: "distinct (map fst (robots s))" by (simp add: wf_fleet_def)
  show ?thesis
  proof
    assume a: "held_ids_readable s"
    show "\<forall>k r key. map_of (robots s) k = Some r \<and> currentMissionId r = Some key \<longrightarrow>
        obj_get (missions s) key \<noteq> Inherited"
    proof (intro allI impI)
      fix k r key assume b: "map_of (robots s) k = Some r \<and> currentMissionId r = Some key"
      then have "(k, r) \<in> set (robots s)" by (auto dest: map_of_SomeD)
      with a b show "obj_get (missions s) key \<noteq> Inherited"
        unfolding held_ids_readable_def by blast
    qed
  next
    assume a: "\<forall>k r key. map_of (robots s) k = Some r \<and> currentMissionId r = Some key \<longrightarrow>
        obj_get (missions s) key \<noteq> Inherited"
    show "held_ids_readable s"
      unfolding held_ids_readable_def
    proof (intro ballI, clarify)
      fix k r key assume "(k, r) \<in> set (robots s)" "currentMissionId r = Some key"
        "obj_get (missions s) key = Inherited"
      with d have "map_of (robots s) k = Some r" by simp
      with a \<open>currentMissionId r = Some key\<close> \<open>obj_get (missions s) key = Inherited\<close>
      show False by blast
    qed
  qed
qed

lemma obj_get_keys:
  "map fst obj' = map fst obj \<Longrightarrow> obj_get obj' key = Inherited \<longleftrightarrow> obj_get obj key = Inherited"
  by (metis obj_get_Inherited_iff map_of_eq_None_iff list.set_map)

lemma tick_held_ids_readable:
  assumes wf: "wf_fleet (robots s)" and h: "held_ids_readable s"
  shows "held_ids_readable (updateRobotStates now s)"
proof -
  have wf': "wf_fleet (robots (updateRobotStates now s))" using wf by (rule tick_wf)
  have keys: "map fst (missions (updateRobotStates now s)) = map fst (missions s)"
    by (simp add: updateRobotStates_def)
  show ?thesis
    unfolding held_ids_readable_iff [OF wf']
  proof (intro allI impI)
    fix k r' key
    assume a: "map_of (robots (updateRobotStates now s)) k = Some r' \<and> currentMissionId r' = Some key"
    then have "map_of (robots (fold (advanceRobot now) (getAllRobots s) s)) k = Some r'"
      by (simp add: updateRobotStates_def)
    from fold_advance_cmid [OF this] a obtain r0 where
      "map_of (robots s) k = Some r0" "currentMissionId r0 = Some key" by auto
    with h have "obj_get (missions s) key \<noteq> Inherited"
      unfolding held_ids_readable_iff [OF wf] by blast
    then show "obj_get (missions (updateRobotStates now s)) key \<noteq> Inherited"
      by (simp add: obj_get_keys [OF keys])
  qed
qed

lemma run_ticks_held_ids_readable:
  "wf_fleet (robots s) \<Longrightarrow> held_ids_readable s \<Longrightarrow> held_ids_readable (run_ticks nows s)"
proof (induction nows arbitrary: s)
  case Nil
  then show ?case by simp
next
  case (Cons now nows)
  have a: "wf_fleet (robots (updateRobotStates now s))" using Cons.prems(1) by (rule tick_wf)
  have b: "held_ids_readable (updateRobotStates now s)"
    using Cons.prems by (rule tick_held_ids_readable)
  from Cons.IH [OF a b] show ?case by simp
qed


text \<open>
  In a well-formed registry the snapshot array of a tick holds the robot stored under \<open>k\<close>
  once; every other robot of the array has another id.
\<close>

lemma snapshot_split:
  assumes wf: "wf_fleet (robots s)" and r: "map_of (robots s) k = Some r"
  obtains ys zs where "getAllRobots s = ys @ r # zs"
    "\<forall>r' \<in> set ys. robot_id r' \<noteq> k" "\<forall>r' \<in> set zs. robot_id r' \<noteq> k"
proof -
  from r have "(k, r) \<in> set (robots s)" by (rule map_of_SomeD)
  then have "r \<in> set (getAllRobots s)" by (force simp: getAllRobots_def)
  then obtain ys zs where split: "getAllRobots s = ys @ r # zs" by (auto dest: split_list)
  from wf have "distinct (map fst (robots s))" by (simp add: wf_fleet_def)
  with wf_fleet_ids [OF wf] have "distinct (map robot_id (getAllRobots s))"
    unfolding getAllRobots_def by metis
  with split have d: "distinct (map robot_id ys @ robot_id r # map robot_id zs)" by simp
  from wf_fleet_map_of [OF wf r] have id: "robot_id r = k" by simp
  from d have "robot_id r \<notin> robot_id ` set ys" "robot_id r \<notin> robot_id ` set zs" by auto
  with id have "\<forall>r' \<in> set ys. robot_id r' \<noteq> k" "\<forall>r' \<in> set zs. robot_id r' \<noteq> k"
    by (metis imageI)+
  with split show ?thesis by (rule that)
qed

lemma fold_advance_other_ids:
  "(\<forall>r' \<in> set rs. robot_id r' \<noteq> k) \<Longrightarrow>
   map_of (robots (fold (advanceRobot now) rs s)) k = map_of (robots s) k"
  by (rule fold_advance_robot_untouched) simp

lemma fold_advance_settled:
  assumes "map_of (missions s) key = Some m" and "\<not> due now m \<or> next_stage (currentStage m) = None"
  shows "map_of (missions (fold (advanceRobot now) rs s)) key = Some m"
  using fold_advance_mission [OF assms(1), of m now rs] assms(2) by auto


lemma callback_finish:
  assumes wf: "wf_fleet (robots s)" and r: "map_of (robots s) k = Some r"
    and cm: "currentMissionId r = Some key" and m: "map_of (missions s) key = Some m"
    and d: "due now m" and fin: "currentStage m = S_completed"
  shows "map_of (robots (advanceRobot now r s)) k =
           Some (r\<lparr>status := R_idle, currentMissionId := None, lastUpdated := now\<rparr>) \<and>
         missions (advanceRobot now r s) = missions s"
proof -
  from wf_fleet_map_of [OF wf r] cm have id: "robot_id r = k" and key: "key \<noteq> []" by auto
  from advanceRobot_finish [OF cm key m d fin] show ?thesis
    by (simp add: updateRobot_lookup id r spread_idle)
qed

text \<open>One whole tick, seen from a robot and its mission, whoever else refers to the mission.\<close>

lemma tick_wait:
  assumes wf: "wf_fleet (robots s)" and r: "map_of (robots s) k = Some r"
    and cm: "currentMissionId r = Some key" and m: "map_of (missions s) key = Some m"
    and nd: "\<not> due now m"
  shows "map_of (robots (updateRobotStates now s)) k = Some r \<and>
         map_of (missions (updateRobotStates now s)) key = Some m"
proof -
  from snapshot_split [OF wf r] obtain ys zs where
    split: "getAllRobots s = ys @ r # zs"
    and ys: "\<forall>r' \<in> set ys. robot_id r' \<noteq> k" and zs: "\<forall>r' \<in> set zs. robot_id r' \<noteq> k" by blast
  let ?s1 = "fold (advanceRobot now) ys s"
  have tick: "updateRobotStates now s = fold (advanceRobot now) zs (advanceRobot now r ?s1)"
    by (simp add: updateRobotStates_def split)
  from nd have st: "\<not> due now m \<or> next_stage (currentStage m) = None" by simp
  have m1: "map_of (missions ?s1) key = Some m" using m st by (rule fold_advance_settled)
  have r1: "map_of (robots ?s1) k = Some r" using fold_advance_other_ids [OF ys] r by simp
  from advanceRobot_not_due [OF cm m1 nd] have skip: "advanceRobot now r ?s1 = ?s1" .
  have "map_of (robots (updateRobotStates now s)) k = Some r"
    using fold_advance_other_ids [OF zs, of now ?s1] r1 by (simp add: tick skip)
  moreover have "map_of (missions (updateRobotStates now s)) key = Some m"
    using m nd by (rule tick_not_due)
  ultimately show ?thesis by simp
qed

lemma tick_due_moves:
  assumes wf: "wf_fleet (robots s)" and r: "map_of (robots s) k = Some r"
    and cm: "currentMissionId r = Some key" and m: "map_of (missions s) key = Some m"
    and d: "due now m" and nx: "next_stage (currentStage m) = Some next"
  shows "map_of (missions (updateRobotStates now s)) key =
           Some (m\<lparr>currentStage := next, stageStartTime := now\<rparr>)"
proof -
  from snapshot_split [OF wf r] obtain ys zs where
    split: "getAllRobots s = ys @ r # zs"
    and ys: "\<forall>r' \<in> set ys. robot_id r' \<noteq> k" and zs: "\<forall>r' \<in> set zs. robot_id r' \<noteq> k" by blast
  let ?s1 = "fold (advanceRobot now) ys s"
  let ?m' = "m\<lparr>currentStage := next, stageStartTime := now\<rparr>"
  have tick: "updateRobotStates now s = fold (advanceRobot now) zs (advanceRobot now r ?s1)"
    by (simp add: updateRobotStates_def split)
  from wf_fleet_map_of [OF wf r] cm have key: "key \<noteq> []" by auto
  from next_stage_table [OF nx] obtain info where info: "missionStages next = Some info" by blast
  have settled: "\<not> due now ?m' \<or> next_stage (currentStage ?m') = None"
    using not_due_after_step [OF nx] by simp
  from fold_advance_mission [OF m, of m now ys] nx
  consider (still) "map_of (missions ?s1) key = Some m" | (moved) "map_of (missions ?s1) key = Some ?m'"
    by auto
  then have "map_of (missions (advanceRobot now r ?s1)) key = Some ?m'"
  proof cases
    case still
    from advanceRobot_step [OF cm key still d nx info] show ?thesis by (simp add: update_conv')
  next
    case moved
    from advanceRobot_not_due [OF cm moved not_due_after_step [OF nx]] moved show ?thesis by simp
  qed
  from fold_advance_settled [OF this settled] show ?thesis by (simp add: tick)
qed

lemma tick_due_finishes:
  assumes wf: "wf_fleet (robots s)" and r: "map_of (robots s) k = Some r"
    and cm: "currentMissionId r = Some key" and m: "map_of (missions s) key = Some m"
    and d: "due now m" and fin: "currentStage m = S_completed"
  shows "map_of (robots (updateRobotStates now s)) k =
           Some (r\<lparr>status := R_idle, currentMissionId := None, lastUpdated := now\<rparr>) \<and>
         map_of (missions (updateRobotStates now s)) key = Some m"
proof -
  from snapshot_split [OF wf r] obtain ys zs where
    split: "getAllRobots s = ys @ r # zs"
    and ys: "\<forall>r' \<in> set ys. robot_id r' \<noteq> k" and zs: "\<forall>r' \<in> set zs. robot_id r' \<noteq> k" by blast
  let ?s1 = "fold (advanceRobot now) ys s"
  have tick: "updateRobotStates now s = fold (advanceRobot now) zs (advanceRobot now r ?s1)"
    by (simp add: updateRobotStates_def split)
  from fin have st: "\<not> due now m \<or> next_stage (currentStage m) = None" by simp
  have m1: "map_of (missions ?s1) key = Some m" using m st by (rule fold_advance_settled)
  have r1: "map_of (robots ?s1) k = Some r" using fold_advance_other_ids [OF ys] r by simp
  have wf1: "wf_fleet (robots ?s1)" using wf by (rule fold_advance_wf)
  from callback_finish [OF wf1 r1 cm m1 d fin]
  have "map_of (robots (advanceRobot now r ?s1)) k =
      Some (r\<lparr>status := R_idle, currentMissionId := None, lastUpdated := now\<rparr>)" by simp
  then have "map_of (robots (updateRobotStates now s)) k =
      Some (r\<lparr>status := R_idle, currentMissionId := None, lastUpdated := now\<rparr>)"
    using fold_advance_other_ids [OF zs, of now "advanceRobot now r ?s1"] by (simp add: tick)
  moreover have "map_of (missions (updateRobotStates now s)) key = Some m"
    unfolding updateRobotStates_def using m st by (rule fold_advance_settled)
  ultimately show ?thesis by simp
qed





section \<open>Periodic ticks\<close>

lemma periodic_Suc: "periodic t0 T (Suc n) = periodic t0 T n @ [t0 + int n * T]"
  by (simp add: periodic_def)

lemma run_periodic_Suc:
  "run_ticks (periodic t0 T (Suc n)) s =
     updateRobotStates (t0 + int n * T) (run_ticks (periodic t0 T n) s)"
  by (simp add: periodic_Suc run_ticks_append)

lemma waiting_ticks:
  assumes wf: "wf_fleet (robots s)" and r: "map_of (robots s) k = Some r"
    and cm: "currentMissionId r = Some key" and m: "map_of (missions s) key = Some m"
    and nd: "\<forall>i < n. \<not> due (t0 + int i * T) m"
  shows "wf_fleet (robots (run_ticks (periodic t0 T n) s)) \<and>
         map_of (robots (run_ticks (periodic t0 T n) s)) k = Some r \<and>
         map_of (missions (run_ticks (periodic t0 T n) s)) key = Some m"
  using nd
proof (induction n)
  case 0
  from wf r m show ?case by (simp add: periodic_def)
next
  case (Suc n)
  let ?s = "run_ticks (periodic t0 T n) s"
  from Suc.prems have "\<forall>i < n. \<not> due (t0 + int i * T) m" by simp
  from Suc.IH [OF this] have wf': "wf_fleet (robots ?s)" and r': "map_of (robots ?s) k = Some r"
    and m': "map_of (missions ?s) key = Some m"
    by simp_all
  from Suc.prems have nd: "\<not> due (t0 + int n * T) m" by simp
  from tick_wait [OF wf' r' cm m' nd] tick_wf [OF wf']
  show ?case by (simp add: run_periodic_Suc)
qed

lemma first_due_tick:
  assumes T: "0 < (T::int)" and prev: "t0 - T - st < D"
  shows "\<exists>n. (\<forall>i < n. \<not> D \<le> t0 + int i * T - st) \<and> D \<le> t0 + int n * T - st \<and>
           t0 + int n * T - st < D + T"
proof -
  let ?P = "\<lambda>n. D \<le> t0 + int n * T - st"
  have "?P (nat (D + st - t0))"
  proof -
    have "D + st - t0 \<le> int (nat (D + st - t0))" by simp
    also have "\<dots> \<le> int (nat (D + st - t0)) * T"
      using T by (simp add: mult_le_cancel_left1)
    finally show ?thesis by simp
  qed
  then have ex: "\<exists>n. ?P n" ..
  define n where "n = (LEAST n. ?P n)"
  from ex have Pn: "?P n" unfolding n_def by (rule LeastI_ex)
  have before: "\<not> ?P i" if "i < n" for i
    using that unfolding n_def by (rule not_less_Least)
  have "t0 + int n * T - st < D + T"
  proof (cases n)
    case 0
    with prev show ?thesis by simp
  next
    case (Suc j)
    then have "\<not> ?P j" using before by simp
    with Suc show ?thesis by (simp add: algebra_simps)
  qed
  with Pn before show ?thesis by blast
qed

text \<open>
  Claim C7 (bounded overshoot). Times are in milliseconds, so a stage of \<open>duration info\<close>
  seconds lasts \<open>D = duration info * 1000\<close>. Take a well-formed registry in which the held
  mission ids are readable (as in every reachable state, so that each tick is the code's
  tick), and a robot of it that holds the id of a mission (not cancelled) whose stage began
  at \<open>stageStartTime\<close>, and let
  advancement ticks fire at \<open>t0\<close>, \<open>t0 + T\<close>, \<open>t0 + 2T\<close>, ... with \<open>T > 0\<close>, where the instant
  one period before \<open>t0\<close> was still less than \<open>D\<close> after the stage began (the tick before
  \<open>t0\<close>, if any, came too early to move the mission, or before the stage began). Then there
  is a tick, number \<open>n\<close>, such that the mission and the robot are unchanged, and the held
  mission ids still readable, before each of the ticks 0 to \<open>n\<close>, tick \<open>n\<close> takes the mission out of the stage (to the next stage,
  entered at the time of that tick, or, from completed, by idling the robot), and the time
  from \<open>stageStartTime\<close> to tick \<open>n\<close> is at least \<open>D\<close> and less than \<open>D + T\<close>.
\<close>

theorem bounded_overshoot:
  assumes wf: "wf_fleet (robots s)" and r: "map_of (robots s) k = Some r"
    and cm: "currentMissionId r = Some key" and m: "map_of (missions s) key = Some m"
    and info: "missionStages (currentStage m) = Some info"
    and readable: "held_ids_readable s"
    and T: "0 < T" and prev: "t0 - T - stageStartTime m < duration info * 1000"
  shows "\<exists>n. (\<forall>i \<le> n. map_of (missions (run_ticks (periodic t0 T i) s)) key = Some m \<and>
                      map_of (robots (run_ticks (periodic t0 T i) s)) k = Some r \<and>
                      wf_fleet (robots (run_ticks (periodic t0 T i) s)) \<and>
                      held_ids_readable (run_ticks (periodic t0 T i) s)) \<and>
             (\<forall>next. array_get stages (indexOf stages (currentStage m) + 1) = Some next \<longrightarrow>
                map_of (missions (run_ticks (periodic t0 T (Suc n)) s)) key =
                  Some (m\<lparr>currentStage := next, stageStartTime := t0 + int n * T\<rparr>)) \<and>
             (currentStage m = S_completed \<longrightarrow>
                map_of (robots (run_ticks (periodic t0 T (Suc n)) s)) k =
                  Some (r\<lparr>status := R_idle, currentMissionId := None,
                         lastUpdated := t0 + int n * T\<rparr>)) \<and>
             duration info * 1000 \<le> t0 + int n * T - stageStartTime m \<and>
             t0 + int n * T - stageStartTime m < duration info * 1000 + T"
proof -
  from first_due_tick [OF T prev] obtain n where
    before: "\<forall>i < n. \<not> duration info * 1000 \<le> t0 + int i * T - stageStartTime m"
    and at: "duration info * 1000 \<le> t0 + int n * T - stageStartTime m"
    and bound: "t0 + int n * T - stageStartTime m < duration info * 1000 + T" by blast
  have nd: "\<forall>i < j. \<not> due (t0 + int i * T) m" if "j \<le> n" for j
    using before that by (simp add: due_iff [OF info])
  have d: "due (t0 + int n * T) m" using at by (simp add: due_iff [OF info])
  have still: "map_of (missions (run_ticks (periodic t0 T i) s)) key = Some m \<and>
      map_of (robots (run_ticks (periodic t0 T i) s)) k = Some r \<and>
      wf_fleet (robots (run_ticks (periodic t0 T i) s)) \<and>
      held_ids_readable (run_ticks (periodic t0 T i) s)" if "i \<le> n" for i
    using waiting_ticks [OF wf r cm m nd [OF that]]
      run_ticks_held_ids_readable [OF wf readable, of "periodic t0 T i"] by simp
  let ?s = "run_ticks (periodic t0 T n) s"
  from waiting_ticks [OF wf r cm m nd [OF order_refl]]
  have wf': "wf_fleet (robots ?s)" and r': "map_of (robots ?s) k = Some r"
    and m': "map_of (missions ?s) key = Some m"
    by simp_all
  have step: "map_of (missions (run_ticks (periodic t0 T (Suc n)) s)) key =
      Some (m\<lparr>currentStage := next, stageStartTime := t0 + int n * T\<rparr>)"
    if "array_get stages (indexOf stages (currentStage m) + 1) = Some next" for "next"
  proof -
    from info have "currentStage m \<noteq> S_cancelled" by auto
    with that have nx: "next_stage (currentStage m) = Some next"
      by (simp add: next_stage_code)
    from tick_due_moves [OF wf' r' cm m' d nx] show ?thesis
      by (simp add: run_periodic_Suc)
  qed
  have fin: "map_of (robots (run_ticks (periodic t0 T (Suc n)) s)) k =
      Some (r\<lparr>status := R_idle, currentMissionId := None, lastUpdated := t0 + int n * T\<rparr>)"
    if "currentStage m = S_completed"
    using tick_due_finishes [OF wf' r' cm m' d that] by (simp add: run_periodic_Suc)
  from still step fin at bound show ?thesis by blast
qed

theorem bounded_overshoot_witness:
  "(\<exists>n. map_of (missions (run_ticks (periodic 90000 60000 (Suc n)) demo)) ''mission-0-0'' =
          Some \<lparr>mission_id = ''mission-0-0'', assignedRobotId = Some ''robot-1'',
                createdAt = 0, currentStage = S_delivery, stageStartTime = 90000 + int n * 60000\<rparr> \<and>
        150 * 1000 \<le> 90000 + int n * 60000 - 30000 \<and>
        90000 + int n * 60000 - 30000 < 150 * 1000 + 60000) \<and>
   map_of (missions (run_ticks (periodic 90000 60000 3) demo)) ''mission-0-0'' =
     Some \<lparr>mission_id = ''mission-0-0'', assignedRobotId = Some ''robot-1'',
           createdAt = 0, currentStage = S_delivery, stageStartTime = 210000\<rparr>"
proof -
  have wf: "wf_fleet (robots demo)" by (simp add: demo_def wf_fleet_def)
  have r: "map_of (robots demo) ''robot-1'' =
      Some \<lparr>robot_id = ''robot-1'', status = R_en_route,
            currentMissionId = Some ''mission-0-0'', lastUpdated = 30000\<rparr>"
    by (simp add: demo_def)
  have m: "map_of (missions demo) ''mission-0-0'' =
      Some \<lparr>mission_id = ''mission-0-0'', assignedRobotId = Some ''robot-1'',
            createdAt = 0, currentStage = S_travel, stageStartTime = 30000\<rparr>"
    by (simp add: demo_def)
  have run: "map_of (missions (run_ticks (periodic 90000 60000 3) demo)) ''mission-0-0'' =
     Some \<lparr>mission_id = ''mission-0-0'', assignedRobotId = Some ''robot-1'',
           createdAt = 0, currentStage = S_delivery, stageStartTime = 210000\<rparr>"
    by code_simp
  have readable: "held_ids_readable demo"
    by (simp add: demo_def held_ids_readable_def obj_get_def)
  from bounded_overshoot [OF wf r _ m _ readable,
      of "\<lparr>duration = 150, robotStatus = R_en_route\<rparr>" 60000 90000]
  obtain n where
    "map_of (missions (run_ticks (periodic 90000 60000 (Suc n)) demo)) ''mission-0-0'' =
          Some \<lparr>mission_id = ''mission-0-0'', assignedRobotId = Some ''robot-1'',
                createdAt = 0, currentStage = S_delivery, stageStartTime = 90000 + int n * 60000\<rparr>"
    "150 * 1000 \<le> 90000 + int n * 60000 - (30000::int)"
    "90000 + int n * 60000 - 30000 < 150 * 1000 + (60000::int)"
    by (auto simp: stages_def array_get_def)
  with run show ?thesis by blast
qed

section \<open>Creation tick\<close>

lemma missionName_inj: "missionName now i = missionName now j \<Longrightarrow> string_of_nat i = string_of_nat j"
  by (simp add: missionName_def)

lemma missionName_0_1: "missionName now 0 \<noteq> missionName now (Suc 0)"
proof
  assume "missionName now 0 = missionName now (Suc 0)"
  then have "string_of_nat 0 = string_of_nat (Suc 0)" by (rule missionName_inj)
  then show False by (simp add: string_of_nat.simps)
qed

lemma missionName_nonempty: "missionName now i \<noteq> []"
  by (simp add: missionName_def)

lemma length_update:
  "length (AList.update k v al) = (if k \<in> fst ` set al then length al else Suc (length al))"
  by (induction al) auto

lemma createMission_missions:
  "i < length idle \<Longrightarrow>
   missions (createMission now idle i s) =
     AList.update (missionName now i)
       \<lparr>mission_id = missionName now i, assignedRobotId = Some (robot_id (idle ! i)),
        createdAt = now, currentStage = S_preparation, stageStartTime = now\<rparr> (missions s)"
  by (simp add: createMission_def Let_def)

lemma createMission_robots:
  "i < length idle \<Longrightarrow>
   map_of (robots (createMission now idle i s)) k =
     (if k = robot_id (idle ! i)
      then map_option (\<lambda>r. r\<lparr>status := R_assigned, currentMissionId := Some (missionName now i),
                               lastUpdated := now\<rparr>) (map_of (robots s) k)
      else map_of (robots s) k)"
  by (simp add: createMission_def Let_def updateRobot_lookup spread_assign)

lemma createMission_robots_keys:
  "map fst (robots (createMission now idle i s)) = map fst (robots s)"
  by (simp add: createMission_def Let_def)

lemma createMission_wf: "wf_fleet (robots s) \<Longrightarrow> wf_fleet (robots (createMission now idle i s))"
  by (simp add: createMission_def Let_def updateRobot_wf no_updates_def missionName_nonempty)

lemma fold_createMission_wf:
  "wf_fleet (robots s) \<Longrightarrow> wf_fleet (robots (fold (createMission now idle) is s))"
  by (induction "is" arbitrary: s) (simp_all add: createMission_wf)

lemma create_wf: "wf_fleet (robots s) \<Longrightarrow> wf_fleet (robots (createNewMissions now s))"
  by (simp add: createNewMissions_def Let_def fold_createMission_wf)

lemma idle_robots_lookup:
  assumes wf: "wf_fleet (robots s)" and i: "i < length (getIdleRobots s)"
  shows "map_of (robots s) (robot_id (getIdleRobots s ! i)) = Some (getIdleRobots s ! i)"
    and "status (getIdleRobots s ! i) = R_idle"
proof -
  from i have mem: "getIdleRobots s ! i \<in> set (getIdleRobots s)" by simp
  then have "getIdleRobots s ! i \<in> set (map snd (robots s))"
    by (simp add: getIdleRobots_def getAllRobots_def)
  from wf_fleet_snapshot_lookup [OF wf this]
  show "map_of (robots s) (robot_id (getIdleRobots s ! i)) = Some (getIdleRobots s ! i)" .
  from mem show "status (getIdleRobots s ! i) = R_idle" by (simp add: getIdleRobots_def)
qed

lemma idle_robots_distinct:
  assumes wf: "wf_fleet (robots s)"
  shows "distinct (map robot_id (getIdleRobots s))"
proof -
  from wf have "distinct (map fst (robots s))" by (simp add: wf_fleet_def)
  with wf_fleet_ids [OF wf] have "distinct (map robot_id (map snd (robots s)))" by metis
  then show ?thesis
    unfolding getIdleRobots_def getAllRobots_def by (rule distinct_map_filter)
qed

lemma idle_robots_ids:
  assumes wf: "wf_fleet (robots s)" and "i < length (getIdleRobots s)" "j < length (getIdleRobots s)"
    "i \<noteq> j"
  shows "robot_id (getIdleRobots s ! i) \<noteq> robot_id (getIdleRobots s ! j)"
  using idle_robots_distinct [OF wf] assms(2-4)
  by (simp add: distinct_conv_nth)

lemma create_none: "getIdleRobots s = [] \<Longrightarrow> createNewMissions now s = s"
  by (simp add: createNewMissions_def)

lemma create_one:
  "length (getIdleRobots s) = 1 \<Longrightarrow>
   createNewMissions now s = createMission now (getIdleRobots s) 0 s"
  by (simp add: createNewMissions_def)

lemma create_two:
  "2 \<le> length (getIdleRobots s) \<Longrightarrow>
   createNewMissions now s =
     createMission now (getIdleRobots s) (Suc 0) (createMission now (getIdleRobots s) 0 s)"
proof -
  assume "2 \<le> length (getIdleRobots s)"
  then have "min 2 (length (getIdleRobots s)) = 2" by simp
  moreover have "[0..<2] = [0, Suc 0]" by (simp add: upt_rec)
  ultimately show ?thesis by (simp add: createNewMissions_def Let_def)
qed


text \<open>
  Claim C6 (creation batch). In a well-formed registry let \<open>idle\<close> be the idle robots in
  registry iteration order and \<open>n = min 2 (length idle)\<close>. One call of
  \<open>createNewMissions\<close> writes, for each \<open>i < n\<close>, a mission record under the id
  \<open>missionName now i\<close>, in stage preparation, created and started now and assigned to the
  \<open>i\<close>-th idle robot, and that robot, idle before, is now assigned with that mission id.
  The ids of the batch differ from one another, and so do the robots. Records under other
  mission keys and robots other than the selected ones are unchanged, and the registry
  keeps its keys and order. When the new ids are not yet keys of the mission store, the
  store grows by exactly \<open>n\<close> records. With no idle robot the state is returned unchanged.
\<close>

theorem createNewMissions_batch:
  assumes wf: "wf_fleet (robots s)"
    and idle: "idle = getIdleRobots s" and n: "n = min 2 (length idle)"
    and s': "s' = createNewMissions now s"
  shows "(\<forall>i < n.
            map_of (missions s') (missionName now i) =
              Some \<lparr>mission_id = missionName now i, assignedRobotId = Some (robot_id (idle ! i)),
                    createdAt = now, currentStage = S_preparation, stageStartTime = now\<rparr> \<and>
            map_of (robots s') (robot_id (idle ! i)) =
              Some ((idle ! i)\<lparr>status := R_assigned, currentMissionId := Some (missionName now i),
                               lastUpdated := now\<rparr>) \<and>
            map_of (robots s) (robot_id (idle ! i)) = Some (idle ! i) \<and>
            status (idle ! i) = R_idle) \<and>
         (\<forall>i < n. \<forall>j < n. i \<noteq> j \<longrightarrow>
            missionName now i \<noteq> missionName now j \<and> robot_id (idle ! i) \<noteq> robot_id (idle ! j)) \<and>
         idle = filter (\<lambda>r. status r = R_idle) (map snd (robots s)) \<and>
         (\<forall>key. key \<notin> missionName now ` {..<n} \<longrightarrow>
            map_of (missions s') key = map_of (missions s) key) \<and>
         (\<forall>k. k \<notin> (\<lambda>i. robot_id (idle ! i)) ` {..<n} \<longrightarrow>
            map_of (robots s') k = map_of (robots s) k) \<and>
         map fst (robots s') = map fst (robots s) \<and>
         ((\<forall>i < n. map_of (missions s) (missionName now i) = None) \<longrightarrow>
            length (missions s') = length (missions s) + n) \<and>
         (idle = [] \<longrightarrow> s' = s)"
proof -
  have filt: "idle = filter (\<lambda>r. status r = R_idle) (map snd (robots s))"
    by (simp add: idle getIdleRobots_def getAllRobots_def)
  consider (zero) "length idle = 0" | (one) "length idle = 1" | (two) "2 \<le> length idle"
    by linarith
  then show ?thesis
  proof cases
    case zero
    then have "idle = []" by simp
    with n s' idle filt show ?thesis by (simp add: create_none)
  next
    case one
    then have n1: "n = 1" using n by simp
    from one idle have s1: "s' = createMission now idle 0 s" using s' by (simp add: create_one)
    from one have i0: "0 < length idle" by simp
    from i0 have g0: "0 < length (getIdleRobots s)" by (simp add: idle)
    from idle_robots_lookup [OF wf g0]
    have l0: "map_of (robots s) (robot_id (idle ! 0)) = Some (idle ! 0)" "status (idle ! 0) = R_idle"
      by (simp_all add: idle)
    have ms: "missions s' = AList.update (missionName now 0)
       \<lparr>mission_id = missionName now 0, assignedRobotId = Some (robot_id (idle ! 0)),
        createdAt = now, currentStage = S_preparation, stageStartTime = now\<rparr> (missions s)"
      by (simp add: s1 createMission_missions [OF i0])
    have rs: "map_of (robots s') k =
     (if k = robot_id (idle ! 0)
      then map_option (\<lambda>r. r\<lparr>status := R_assigned, currentMissionId := Some (missionName now 0),
                               lastUpdated := now\<rparr>) (map_of (robots s) k)
      else map_of (robots s) k)" for k
      by (simp add: s1 createMission_robots [OF i0])
    have keys: "map fst (robots s') = map fst (robots s)"
      by (simp add: s1 createMission_robots_keys)
    have len: "map_of (missions s) (missionName now 0) = None \<Longrightarrow>
        length (missions s') = length (missions s) + 1"
      by (simp add: ms length_update map_of_eq_None_iff)
    from one have ne_idle: "idle \<noteq> []" by auto
    have part1: "map_of (missions s') (missionName now 0) =
              Some \<lparr>mission_id = missionName now 0, assignedRobotId = Some (robot_id (idle ! 0)),
                    createdAt = now, currentStage = S_preparation, stageStartTime = now\<rparr> \<and>
            map_of (robots s') (robot_id (idle ! 0)) =
              Some ((idle ! 0)\<lparr>status := R_assigned, currentMissionId := Some (missionName now 0),
                               lastUpdated := now\<rparr>)"
      using l0 by (simp add: ms rs update_conv')
    have part3: "map_of (missions s') key = map_of (missions s) key"
      if "key \<noteq> missionName now 0" for key
      using that by (simp add: ms update_conv')
    have part4: "map_of (robots s') k = map_of (robots s) k"
      if "k \<noteq> robot_id (idle ! 0)" for k
      using that by (simp add: rs)
    show ?thesis
      unfolding n1 using part1 l0 filt part3 part4 keys len ne_idle by auto
  next
    case two
    then have n2: "n = 2" using n by simp
    from two idle have s2: "s' = createMission now idle (Suc 0) (createMission now idle 0 s)"
      using s' by (simp add: create_two)
    let ?s1 = "createMission now idle 0 s"
    from two have i0: "0 < length idle" and i1: "Suc 0 < length idle" by linarith+
    from i0 i1 have g0: "0 < length (getIdleRobots s)" and g1: "Suc 0 < length (getIdleRobots s)"
      by (simp_all add: idle)
    from idle_robots_lookup [OF wf g0] idle_robots_lookup [OF wf g1]
    have l0: "map_of (robots s) (robot_id (idle ! 0)) = Some (idle ! 0)" "status (idle ! 0) = R_idle"
      and l1: "map_of (robots s) (robot_id (idle ! Suc 0)) = Some (idle ! Suc 0)" "status (idle ! Suc 0) = R_idle"
      by (simp_all add: idle)
    from idle_robots_ids [OF wf g0 g1]
    have ne: "robot_id (idle ! 0) \<noteq> robot_id (idle ! Suc 0)" by (simp add: idle)
    note mn = missionName_0_1 [of now]
    have ms: "missions s' = AList.update (missionName now (Suc 0))
       \<lparr>mission_id = missionName now (Suc 0), assignedRobotId = Some (robot_id (idle ! Suc 0)),
        createdAt = now, currentStage = S_preparation, stageStartTime = now\<rparr>
       (AList.update (missionName now 0)
       \<lparr>mission_id = missionName now 0, assignedRobotId = Some (robot_id (idle ! 0)),
        createdAt = now, currentStage = S_preparation, stageStartTime = now\<rparr> (missions s))"
      by (simp add: s2 createMission_missions [OF i0] createMission_missions [OF i1])
    have rs: "map_of (robots s') k =
     (if k = robot_id (idle ! Suc 0)
      then Some ((idle ! Suc 0)\<lparr>status := R_assigned, currentMissionId := Some (missionName now (Suc 0)),
                               lastUpdated := now\<rparr>)
      else if k = robot_id (idle ! 0)
      then Some ((idle ! 0)\<lparr>status := R_assigned, currentMissionId := Some (missionName now 0),
                               lastUpdated := now\<rparr>)
      else map_of (robots s) k)" for k
      using ne l0 l1
      by (simp add: s2 createMission_robots [OF i0] createMission_robots [OF i1])
    have keys: "map fst (robots s') = map fst (robots s)"
      by (simp add: s2 createMission_robots_keys)
    have len: "length (missions s') = length (missions s) + 2"
      if "map_of (missions s) (missionName now 0) = None"
         "map_of (missions s) (missionName now (Suc 0)) = None"
      using that mn by (simp add: ms length_update map_of_eq_None_iff dom_update)
    have part1: "map_of (missions s') (missionName now i) =
              Some \<lparr>mission_id = missionName now i, assignedRobotId = Some (robot_id (idle ! i)),
                    createdAt = now, currentStage = S_preparation, stageStartTime = now\<rparr> \<and>
            map_of (robots s') (robot_id (idle ! i)) =
              Some ((idle ! i)\<lparr>status := R_assigned, currentMissionId := Some (missionName now i),
                               lastUpdated := now\<rparr>) \<and>
            map_of (robots s) (robot_id (idle ! i)) = Some (idle ! i) \<and>
            status (idle ! i) = R_idle" if "i < 2" for i
    proof -
      from that consider "i = 0" | "i = Suc 0" by linarith
      then show ?thesis
        using l0 l1 ne mn by cases (simp_all add: ms rs update_conv')
    qed
    have part2: "missionName now i \<noteq> missionName now j \<and> robot_id (idle ! i) \<noteq> robot_id (idle ! j)"
      if "i < 2" "j < 2" "i \<noteq> j" for i j
    proof -
      from that consider "i = 0 \<and> j = Suc 0" | "i = Suc 0 \<and> j = 0" by linarith
      then show ?thesis using ne mn by cases auto
    qed
    have two_set: "{..<2::nat} = {0, Suc 0}" by auto
    have part3: "map_of (missions s') key = map_of (missions s) key"
      if "key \<notin> missionName now ` {..<2}" for key
      using that by (simp add: two_set ms update_conv')
    have part4: "map_of (robots s') k = map_of (robots s) k"
      if "k \<notin> (\<lambda>i. robot_id (idle ! i)) ` {..<2}" for k
      using that by (simp add: two_set rs)
    have part5: "(\<forall>i < 2. map_of (missions s) (missionName now i) = None) \<longrightarrow>
            length (missions s') = length (missions s) + 2"
      using len by simp
    from i0 have ne_idle: "idle \<noteq> []" by auto
    show ?thesis
      unfolding n2 using part1 part2 filt part3 part4 keys part5 ne_idle by blast
  qed
qed


theorem createNewMissions_batch_witness:
  "map robot_id (getIdleRobots demo) = [''robot-2'', ''robot-3''] \<and>
   createNewMissions 60000 demo =
     \<lparr>robots =
        [(''robot-1'', \<lparr>robot_id = ''robot-1'', status = R_en_route,
                        currentMissionId = Some ''mission-0-0'', lastUpdated = 30000\<rparr>),
         (''robot-2'', \<lparr>robot_id = ''robot-2'', status = R_assigned,
                        currentMissionId = Some ''mission-60000-0'', lastUpdated = 60000\<rparr>),
         (''robot-3'', \<lparr>robot_id = ''robot-3'', status = R_assigned,
                        currentMissionId = Some ''mission-60000-1'', lastUpdated = 60000\<rparr>)],
      missions =
        [(''mission-0-0'', \<lparr>mission_id = ''mission-0-0'', assignedRobotId = Some ''robot-1'',
                            createdAt = 0, currentStage = S_travel, stageStartTime = 30000\<rparr>),
         (''mission-60000-0'', \<lparr>mission_id = ''mission-60000-0'', assignedRobotId = Some ''robot-2'',
                            createdAt = 60000, currentStage = S_preparation, stageStartTime = 60000\<rparr>),
         (''mission-60000-1'', \<lparr>mission_id = ''mission-60000-1'', assignedRobotId = Some ''robot-3'',
                            createdAt = 60000, currentStage = S_preparation, stageStartTime = 60000\<rparr>)]\<rparr> \<and>
   map_of (missions (createNewMissions 60000 demo)) (missionName 60000 1) =
     Some \<lparr>mission_id = missionName 60000 1,
           assignedRobotId = Some (robot_id (getIdleRobots demo ! 1)),
           createdAt = 60000, currentStage = S_preparation, stageStartTime = 60000\<rparr>"
proof -
  have wf: "wf_fleet (robots demo)" by (simp add: demo_def wf_fleet_def)
  have names: "missionName 60000 0 = ''mission-60000-0''" "missionName 60000 (Suc 0) = ''mission-60000-1''"
    by (simp_all add: missionName_def string_of_int_def string_of_nat.simps)
  have idle: "map robot_id (getIdleRobots demo) = [''robot-2'', ''robot-3'']"
    by (simp add: demo_def getIdleRobots_def getAllRobots_def)
  have n: "min 2 (length (getIdleRobots demo)) = 2"
    by (simp add: demo_def getIdleRobots_def getAllRobots_def)
  have run: "createNewMissions 60000 demo =
     \<lparr>robots =
        [(''robot-1'', \<lparr>robot_id = ''robot-1'', status = R_en_route,
                        currentMissionId = Some ''mission-0-0'', lastUpdated = 30000\<rparr>),
         (''robot-2'', \<lparr>robot_id = ''robot-2'', status = R_assigned,
                        currentMissionId = Some ''mission-60000-0'', lastUpdated = 60000\<rparr>),
         (''robot-3'', \<lparr>robot_id = ''robot-3'', status = R_assigned,
                        currentMissionId = Some ''mission-60000-1'', lastUpdated = 60000\<rparr>)],
      missions =
        [(''mission-0-0'', \<lparr>mission_id = ''mission-0-0'', assignedRobotId = Some ''robot-1'',
                            createdAt = 0, currentStage = S_travel, stageStartTime = 30000\<rparr>),
         (''mission-60000-0'', \<lparr>mission_id = ''mission-60000-0'', assignedRobotId = Some ''robot-2'',
                            createdAt = 60000, currentStage = S_preparation, stageStartTime = 60000\<rparr>),
         (''mission-60000-1'', \<lparr>mission_id = ''mission-60000-1'', assignedRobotId = Some ''robot-3'',
                            createdAt = 60000, currentStage = S_preparation, stageStartTime = 60000\<rparr>)]\<rparr>"
    by (simp add: createNewMissions_def createMission_def getIdleRobots_def getAllRobots_def
        demo_def Let_def upt_rec updateRobot_def obj_get_def spread_def no_updates_def names)
  have one: "1 < min 2 (length (getIdleRobots demo))" by (simp add: n)
  from createNewMissions_batch [OF wf refl refl refl, of 60000, THEN conjunct1, rule_format, OF one]
  have "map_of (missions (createNewMissions 60000 demo)) (missionName 60000 1) =
     Some \<lparr>mission_id = missionName 60000 1,
           assignedRobotId = Some (robot_id (getIdleRobots demo ! 1)),
           createdAt = 60000, currentStage = S_preparation, stageStartTime = 60000\<rparr>"
    by simp
  with idle run show ?thesis by simp
qed


section \<open>The invariant of the fleet\<close>

lemma fleet_inv_iff:
  "fleet_inv s \<longleftrightarrow>
     wf_fleet (robots s) \<and> (\<forall>k r. map_of (robots s) k = Some r \<longrightarrow> robot_inv r)"
proof (cases "wf_fleet (robots s)")
  case True
  then have d: "distinct (map fst (robots s))" by (simp add: wf_fleet_def)
  have "(\<forall>(k, r) \<in> set (robots s). robot_inv r) \<longleftrightarrow>
      (\<forall>k r. map_of (robots s) k = Some r \<longrightarrow> robot_inv r)"
  proof
    assume a: "\<forall>(k, r) \<in> set (robots s). robot_inv r"
    show "\<forall>k r. map_of (robots s) k = Some r \<longrightarrow> robot_inv r"
    proof (intro allI impI)
      fix k r assume "map_of (robots s) k = Some r"
      then have "(k, r) \<in> set (robots s)" by (rule map_of_SomeD)
      with a show "robot_inv r" by blast
    qed
  next
    assume a: "\<forall>k r. map_of (robots s) k = Some r \<longrightarrow> robot_inv r"
    show "\<forall>(k, r) \<in> set (robots s). robot_inv r"
    proof (intro ballI, clarify)
      fix k r assume "(k, r) \<in> set (robots s)"
      with d have "map_of (robots s) k = Some r" by simp
      with a show "robot_inv r" by blast
    qed
  qed
  with True show ?thesis by (simp add: fleet_inv_def)
next
  case False
  then show ?thesis by (simp add: fleet_inv_def)
qed

lemma updateRobot_fleet_inv:
  assumes inv: "fleet_inv s" and "u_id updates = None" "u_currentMissionId updates \<noteq> Some (Some [])"
    and new: "\<forall>r. map_of (robots s) ident = Some r \<longrightarrow> robot_inv (spread r updates now)"
  shows "fleet_inv (snd (updateRobot now ident updates s))"
  using assms
  by (auto simp: fleet_inv_iff updateRobot_wf updateRobot_lookup split: if_splits)

lemma robot_inv_status:
  "currentMissionId r \<noteq> None \<Longrightarrow> st \<noteq> R_idle \<Longrightarrow> robot_inv (r\<lparr>status := st, lastUpdated := t\<rparr>)"
  by (simp add: robot_inv_def)

lemma fleet_inv_missions [simp]: "fleet_inv (s\<lparr>missions := ms\<rparr>) = fleet_inv s"
  by (simp add: fleet_inv_def)

lemma createMission_fleet_inv: "fleet_inv s \<Longrightarrow> fleet_inv (createMission now idle i s)"
  by (simp add: createMission_def Let_def updateRobot_fleet_inv no_updates_def missionName_nonempty
      spread_def robot_inv_def)

lemma create_fleet_inv: "fleet_inv s \<Longrightarrow> fleet_inv (createNewMissions now s)"
proof -
  have "fleet_inv s \<Longrightarrow> fleet_inv (fold (createMission now idle) is s)" for idle "is"
    by (induction "is" arbitrary: s) (simp_all add: createMission_fleet_inv)
  then show "fleet_inv s \<Longrightarrow> fleet_inv (createNewMissions now s)"
    by (simp add: createNewMissions_def Let_def)
qed

lemma cancel_fleet_inv: "fleet_inv s \<Longrightarrow> fleet_inv (snd (cancelRobotMission now robotId s))"
  by (auto simp: cancelRobotMission_def Let_def updateRobot_fleet_inv no_updates_def
      spread_def robot_inv_def split: option.splits)

lemma advanceRobot_fleet_inv:
  assumes inv: "fleet_inv s" and cur: "map_of (robots s) (robot_id robot) = Some robot"
  shows "fleet_inv (advanceRobot now robot s)"
proof (cases now robot s rule: advanceRobot_cases)
  case skip
  with inv show ?thesis by simp
next
  case (step key m "next" info)
  from step(1,8) have "robot_inv (spread robot (no_updates\<lparr>u_status := Some (robotStatus info)\<rparr>) now)"
    by (simp add: spread_status robot_inv_status)
  with inv cur show ?thesis
    by (simp add: step(9) updateRobot_fleet_inv no_updates_def)
next
  case (finish key m)
  with inv show ?thesis
    by (simp add: updateRobot_fleet_inv no_updates_def spread_def robot_inv_def)
qed

lemma fold_advance_fleet_inv:
  "fleet_inv s \<Longrightarrow> distinct (map robot_id rs) \<Longrightarrow>
   (\<forall>r \<in> set rs. map_of (robots s) (robot_id r) = Some r) \<Longrightarrow>
   fleet_inv (fold (advanceRobot now) rs s)"
proof (induction rs arbitrary: s)
  case Nil
  then show ?case by simp
next
  case (Cons r rs)
  from Cons.prems have cur: "map_of (robots s) (robot_id r) = Some r" by simp
  have a: "fleet_inv (advanceRobot now r s)"
    using Cons.prems(1) cur by (rule advanceRobot_fleet_inv)
  from Cons.prems(2) have b: "distinct (map robot_id rs)" by simp
  have c: "\<forall>r' \<in> set rs. map_of (robots (advanceRobot now r s)) (robot_id r') = Some r'"
  proof
    fix r' assume r': "r' \<in> set rs"
    from Cons.prems(2) have "robot_id r \<notin> robot_id ` set rs" by simp
    with r' have "robot_id r' \<noteq> robot_id r" by (metis imageI)
    with Cons.prems(3) r' show "map_of (robots (advanceRobot now r s)) (robot_id r') = Some r'"
      by (simp add: advanceRobot_robot_other)
  qed
  from Cons.IH [OF a b c] show ?case by simp
qed

lemma tick_fleet_inv:
  assumes "fleet_inv s"
  shows "fleet_inv (updateRobotStates now s)"
proof -
  from assms have wf: "wf_fleet (robots s)" by (simp add: fleet_inv_def)
  then have "distinct (map fst (robots s))" by (simp add: wf_fleet_def)
  with wf_fleet_ids [OF wf] have d: "distinct (map robot_id (getAllRobots s))"
    unfolding getAllRobots_def by metis
  have l: "\<forall>r \<in> set (getAllRobots s). map_of (robots s) (robot_id r) = Some r"
    using wf_fleet_snapshot_lookup [OF wf] by (simp add: getAllRobots_def)
  from fold_advance_fleet_inv [OF assms d l] show ?thesis by (simp add: updateRobotStates_def)
qed

lemma fold_initialize:
  assumes "distinct (map fst acc)"
    "\<forall>(k, r) \<in> set acc. robot_id r = k \<and> status r = R_idle \<and> currentMissionId r = None"
  shows "distinct (map fst (fold (\<lambda>i rs. AList.update (robotName i)
                 \<lparr>robot_id = robotName i, status = R_idle, currentMissionId = None,
                  lastUpdated = now\<rparr> rs) is acc)) \<and>
         (\<forall>(k, r) \<in> set (fold (\<lambda>i rs. AList.update (robotName i)
                 \<lparr>robot_id = robotName i, status = R_idle, currentMissionId = None,
                  lastUpdated = now\<rparr> rs) is acc).
             robot_id r = k \<and> status r = R_idle \<and> currentMissionId r = None)"
  using assms
proof (induction "is" arbitrary: acc)
  case Nil
  then show ?case by simp
next
  case (Cons i "is")
  let ?acc = "AList.update (robotName i)
                 \<lparr>robot_id = robotName i, status = R_idle, currentMissionId = None,
                  lastUpdated = now\<rparr> acc"
  from Cons.prems(1) have a: "distinct (map fst ?acc)" by (simp add: distinct_update)
  have b: "\<forall>(k, r) \<in> set ?acc. robot_id r = k \<and> status r = R_idle \<and> currentMissionId r = None"
    using Cons.prems(2) set_update_subset [of "robotName i" _ acc] by fastforce
  from Cons.IH [OF a b] show ?case by simp
qed

lemma initial_all_idle:
  "distinct (map fst (robots (initial now))) \<and>
   (\<forall>(k, r) \<in> set (robots (initial now)).
      robot_id r = k \<and> status r = R_idle \<and> currentMissionId r = None)"
  using fold_initialize [of "[]" now "[1..<101]"]
  by (simp add: initial_def initializeRobots_def)

lemma initial_fleet_inv: "fleet_inv (initial now)"
  using initial_all_idle [of now] by (auto simp: fleet_inv_def wf_fleet_def robot_inv_def)

lemma reachable_fleet_inv: "reachable s \<Longrightarrow> fleet_inv s"
  by (induction rule: reachable.induct)
    (simp_all add: initial_fleet_inv create_fleet_inv tick_fleet_inv cancel_fleet_inv)








lemma card_optional: "card {key. x = Some key} \<le> 1"
  by (cases x) (simp_all add: card.insert_remove)

text \<open>
  Claim C1 (robot invariant). In the initialized fleet every robot is idle with a null
  mission id. In every state the program reaches from there by creation ticks, advancement
  ticks and cancellation requests, every robot of the registry is idle exactly when its
  \<open>currentMissionId\<close> is null, and it refers to at most one mission.
\<close>

theorem robot_invariant:
  "(\<forall>(k, r) \<in> set (robots (initial now)). status r = R_idle \<and> currentMissionId r = None) \<and>
   (reachable s \<longrightarrow>
      (\<forall>(k, r) \<in> set (robots s).
         (status r = R_idle \<longleftrightarrow> currentMissionId r = None) \<and>
         card {key. currentMissionId r = Some key} \<le> 1))"
proof -
  have "\<forall>(k, r) \<in> set (robots s).
         (status r = R_idle \<longleftrightarrow> currentMissionId r = None) \<and>
         card {key. currentMissionId r = Some key} \<le> 1" if "reachable s"
    using reachable_fleet_inv [OF that] card_optional
    by (auto simp: fleet_inv_def robot_inv_def)
  with initial_all_idle [of now] show ?thesis by auto
qed


theorem robot_invariant_witness:
  "reachable (snd (cancelRobotMission 31000 ''robot-2''
      (updateRobotStates 30005 (createNewMissions 5 (initial 0))))) \<and>
   take 2 (robots (snd (cancelRobotMission 31000 ''robot-2''
      (updateRobotStates 30005 (createNewMissions 5 (initial 0)))))) =
     [(''robot-1'', \<lparr>robot_id = ''robot-1'', status = R_en_route,
                     currentMissionId = Some ''mission-5-0'', lastUpdated = 30005\<rparr>),
      (''robot-2'', \<lparr>robot_id = ''robot-2'', status = R_idle,
                     currentMissionId = None, lastUpdated = 31000\<rparr>)] \<and>
   list_all (\<lambda>(k, r). (status r = R_idle) = (currentMissionId r = None))
     (robots (snd (cancelRobotMission 31000 ''robot-2''
      (updateRobotStates 30005 (createNewMissions 5 (initial 0))))))"
proof -
  let ?w = "snd (cancelRobotMission 31000 ''robot-2''
      (updateRobotStates 30005 (createNewMissions 5 (initial 0))))"
  have reach: "reachable ?w"
    by (intro reachable.cancel reachable.tick reachable.create reachable.init)
  have ev: "take 2 (robots ?w) =
     [(''robot-1'', \<lparr>robot_id = ''robot-1'', status = R_en_route,
                     currentMissionId = Some ''mission-5-0'', lastUpdated = 30005\<rparr>),
      (''robot-2'', \<lparr>robot_id = ''robot-2'', status = R_idle,
                     currentMissionId = None, lastUpdated = 31000\<rparr>)]"
    by code_simp
  from robot_invariant [of 0 ?w] reach
  have "\<forall>(k, r) \<in> set (robots ?w). (status r = R_idle) = (currentMissionId r = None)"
    by fast
  then have "list_all (\<lambda>(k, r). (status r = R_idle) = (currentMissionId r = None)) (robots ?w)"
    by (simp add: list_all_iff)
  with reach ev show ?thesis by simp
qed


end
